theory Spec2Isabelle
  imports Complex_Main "HOL-Library.Log_Nat"
begin

section \<open>Numbers and dates of the platform\<close>

text \<open>
  The calculator is TypeScript: every amount, rate and day count is a \<^verbatim>\<open>number\<close>, an
  IEEE binary64 value. A \<^verbatim>\<open>number\<close> is modelled as a finite real, one of the two
  infinities, or NaN; the finite reals that occur are doubles, because every arithmetic
  result is rounded to the nearest double (ties to even, overflow to an infinity,
  gradual underflow). The operations follow the IEEE rules for the special values (NaN
  is absorbing, comparisons with NaN are false, a non-zero finite value divided by zero
  is infinite, zero times infinity is NaN). Only the sign of zero is not modelled: no
  divisor in the code can be a negative zero (they are \<^verbatim>\<open>100\<close>,
  \<^verbatim>\<open>1000 * 3600 * 24\<close> and day counts of the form \<^verbatim>\<open>Math.ceil(x) + 1\<close>).
\<close>

datatype number = Fin real | PInf | NInf | NaN

text \<open>
  Rounding to binary64. \<open>ilog2 x\<close> is the binary exponent of a non-zero \<open>x\<close>
  (\<open>2 powi ilog2 x \<le> \<bar>x\<bar> < 2 powi (ilog2 x + 1)\<close>); the unit in the last place of a
  double with that exponent is \<open>2 powi (ilog2 x - 52)\<close>, and never less than
  \<open>2 powi (- 1074)\<close>, the spacing of the subnormal numbers. \<open>nearestDouble x\<close> is the
  multiple of that unit nearest to \<open>x\<close>, the even multiple at a tie, and \<open>toDouble\<close>
  replaces what lies beyond the largest double by an infinity.
\<close>

definition ilog2 :: "real \<Rightarrow> int" where
  "ilog2 x =
     (if 1 \<le> \<bar>x\<bar> then bitlen \<lfloor>\<bar>x\<bar>\<rfloor> - 1 else - bitlen (\<lceil>1 / \<bar>x\<bar>\<rceil> - 1))"

definition ulpExponent :: "real \<Rightarrow> int" where
  "ulpExponent x = max (ilog2 x) (- 1022) - 52"

definition roundHalfEven :: "real \<Rightarrow> int" where
  "roundHalfEven r =
     (let f = \<lfloor>r\<rfloor>
      in if r - of_int f < 1 / 2 then f
         else if 1 / 2 < r - of_int f then f + 1
         else if even f then f else f + 1)"

definition nearestDouble :: "real \<Rightarrow> real" where
  "nearestDouble x = of_int (roundHalfEven (x / 2 powi ulpExponent x)) * 2 powi ulpExponent x"

definition toDouble :: "real \<Rightarrow> number" where
  "toDouble x =
     (let y = nearestDouble x
      in if 2 ^ 1024 \<le> y then PInf else if y \<le> - (2 ^ 1024) then NInf else Fin y)"

text \<open>The reals that are doubles: those that rounding leaves as they are.\<close>

definition isDouble :: "real \<Rightarrow> bool" where
  "isDouble x = (nearestDouble x = x \<and> \<bar>x\<bar> < 2 ^ 1024)"

fun jneg :: "number \<Rightarrow> number" where
  "jneg (Fin a) = Fin (- a)"
| "jneg PInf = NInf"
| "jneg NInf = PInf"
| "jneg NaN = NaN"

fun jadd :: "number \<Rightarrow> number \<Rightarrow> number" where
  "jadd (Fin a) (Fin b) = toDouble (a + b)"
| "jadd (Fin a) PInf = PInf"
| "jadd (Fin a) NInf = NInf"
| "jadd PInf (Fin b) = PInf"
| "jadd PInf PInf = PInf"
| "jadd PInf NInf = NaN"
| "jadd NInf (Fin b) = NInf"
| "jadd NInf PInf = NaN"
| "jadd NInf NInf = NInf"
| "jadd NaN y = NaN"
| "jadd x NaN = NaN"

definition jsub :: "number \<Rightarrow> number \<Rightarrow> number" where
  "jsub x y = jadd x (jneg y)"

fun jmul :: "number \<Rightarrow> number \<Rightarrow> number" where
  "jmul (Fin a) (Fin b) = toDouble (a * b)"
| "jmul (Fin a) PInf = (if a = 0 then NaN else if 0 < a then PInf else NInf)"
| "jmul (Fin a) NInf = (if a = 0 then NaN else if 0 < a then NInf else PInf)"
| "jmul PInf (Fin b) = (if b = 0 then NaN else if 0 < b then PInf else NInf)"
| "jmul NInf (Fin b) = (if b = 0 then NaN else if 0 < b then NInf else PInf)"
| "jmul PInf PInf = PInf"
| "jmul PInf NInf = NInf"
| "jmul NInf PInf = NInf"
| "jmul NInf NInf = PInf"
| "jmul NaN y = NaN"
| "jmul x NaN = NaN"

fun jdiv :: "number \<Rightarrow> number \<Rightarrow> number" where
  "jdiv (Fin a) (Fin b) =
     (if b = 0 then (if a = 0 then NaN else if 0 < a then PInf else NInf)
      else toDouble (a / b))"
| "jdiv (Fin a) PInf = Fin 0"
| "jdiv (Fin a) NInf = Fin 0"
| "jdiv PInf (Fin b) = (if 0 \<le> b then PInf else NInf)"
| "jdiv NInf (Fin b) = (if 0 \<le> b then NInf else PInf)"
| "jdiv PInf PInf = NaN"
| "jdiv PInf NInf = NaN"
| "jdiv NInf PInf = NaN"
| "jdiv NInf NInf = NaN"
| "jdiv NaN y = NaN"
| "jdiv x NaN = NaN"

text \<open>The relational operators \<^verbatim>\<open><\<close> and \<^verbatim>\<open><=\<close>; \<^verbatim>\<open>a > b\<close> is \<^verbatim>\<open>b < a\<close> and
  \<^verbatim>\<open>a >= b\<close> is \<^verbatim>\<open>b <= a\<close>. Each is false as soon as one operand is NaN.\<close>

fun jlt :: "number \<Rightarrow> number \<Rightarrow> bool" where
  "jlt (Fin a) (Fin b) = (a < b)"
| "jlt (Fin a) PInf = True"
| "jlt (Fin a) NInf = False"
| "jlt PInf y = False"
| "jlt NInf (Fin b) = True"
| "jlt NInf PInf = True"
| "jlt NInf NInf = False"
| "jlt x NaN = False"
| "jlt NaN y = False"

fun jle :: "number \<Rightarrow> number \<Rightarrow> bool" where
  "jle (Fin a) (Fin b) = (a \<le> b)"
| "jle (Fin a) PInf = True"
| "jle (Fin a) NInf = False"
| "jle PInf (Fin b) = False"
| "jle PInf PInf = True"
| "jle PInf NInf = False"
| "jle NInf (Fin b) = True"
| "jle NInf PInf = True"
| "jle NInf NInf = True"
| "jle x NaN = False"
| "jle NaN y = False"

definition jgt :: "number \<Rightarrow> number \<Rightarrow> bool" where
  "jgt x y = jlt y x"

definition jge :: "number \<Rightarrow> number \<Rightarrow> bool" where
  "jge x y = jle y x"

text \<open>\<^verbatim>\<open>Math.ceil\<close> and \<^verbatim>\<open>Math.max\<close> of two arguments.\<close>

fun Math_ceil :: "number \<Rightarrow> number" where
  "Math_ceil (Fin a) = Fin (of_int \<lceil>a\<rceil>)"
| "Math_ceil PInf = PInf"
| "Math_ceil NInf = NInf"
| "Math_ceil NaN = NaN"

fun Math_max :: "number \<Rightarrow> number \<Rightarrow> number" where
  "Math_max NaN y = NaN"
| "Math_max x NaN = NaN"
| "Math_max x y = (if jlt x y then y else x)"

text \<open>
  A \<^verbatim>\<open>Date\<close> object holds a time value: a whole number of milliseconds since the
  epoch, of magnitude at most 8.64e15, or NaN for an Invalid Date; a time value beyond
  that range is not kept (the constructor stores NaN in its place). \<^verbatim>\<open>getTime()\<close>
  reads the time value, and so does the implicit conversion that \<^verbatim>\<open><\<close>, \<^verbatim>\<open>>\<close> and
  \<^verbatim>\<open>>=\<close> apply to a \<^verbatim>\<open>Date\<close> operand.
\<close>

datatype Date = TimeValue int | InvalidDate

fun getTime :: "Date \<Rightarrow> number" where
  "getTime (TimeValue t) = (if \<bar>t\<bar> \<le> 8640000000000000 then Fin (of_int t) else NaN)"
| "getTime InvalidDate = NaN"

section \<open>Day-span calculator\<close>

text \<open>
  \<^verbatim>\<open>calculateDaysBetween(startDate, endDate)\<close>, textually the same private method in
  the three classes of the repository:
  \<^verbatim>\<open>
    const start = new Date(startDate);
    const end = new Date(endDate);
    const timeDiff = end.getTime() - start.getTime();
    return Math.ceil(timeDiff / (1000 * 3600 * 24)) + 1;
  \<close>
  \<^verbatim>\<open>new Date(d)\<close> of a \<^verbatim>\<open>Date\<close> copies its time value.
\<close>

definition calculateDaysBetween :: "Date \<Rightarrow> Date \<Rightarrow> number" where
  "calculateDaysBetween startDate endDate =
     (let start = startDate;
          end = endDate;
          timeDiff = jsub (getTime end) (getTime start)
      in jadd (Math_ceil (jdiv timeDiff (Fin (1000 * 3600 * 24)))) (Fin 1))"

section \<open>Outage-credit mode: the credit calculator component\<close>

text \<open>
  The interfaces of the component. The field \<^verbatim>\<open>id\<close> is written \<open>item_id\<close> and
  \<open>calc_id\<close>, and the \<^verbatim>\<open>serviceName\<close> of a calculation \<open>calc_serviceName\<close>.
  The three dates of a service are the strings of the form's date fields.
\<close>

record ServiceItem =
  item_id :: int
  serviceName :: string
  invoiceStartDate :: string
  invoiceEndDate :: string
  pricePaid :: number
  actualServiceStartDate :: string

record CreditCalculation =
  calc_id :: int
  calc_serviceName :: string
  totalBillingDays :: number
  daysWithoutService :: number
  dailyRate :: number
  creditAmount :: number
  taxOnCredit :: number
  totalCreditWithTax :: number

record CombinedCreditResult =
  services :: "CreditCalculation list"
  totalCreditAmount :: number
  totalTaxOnCredit :: number
  grandTotalWithTax :: number

text \<open>
  \<^verbatim>\<open>calculateCredit()\<close> reports a refusal with \<^verbatim>\<open>alert(...)\<close> and returns without
  setting \<^verbatim>\<open>calculationResult\<close>. Each alert of the method is a constructor, carrying
  the service name the message is built from.
\<close>

datatype alert =
    AddAtLeastOneService
  | FillInAllFields string
  | EndDateMustBeAfterStart string
  | StartBeforeInvoiceStart string
  | StartAfterInvoiceEnd string

text \<open>
  The first loop of \<^verbatim>\<open>calculateCredit()\<close>: every service is checked for its required
  data and for \<^verbatim>\<open>invoiceStart >= invoiceEnd\<close>; the first refusal ends the method.
  \<open>parseDate\<close> stands for the platform's \<^verbatim>\<open>new Date(string)\<close>, which is not code
  of the repository; everything below holds for any such function. A string is falsy
  exactly when it is empty.
\<close>

fun validateServices :: "(string \<Rightarrow> Date) \<Rightarrow> ServiceItem list \<Rightarrow> alert option" where
  "validateServices parseDate [] = None"
| "validateServices parseDate (service # rest) =
     (if serviceName service = [] \<or> invoiceStartDate service = [] \<or>
         invoiceEndDate service = [] \<or> actualServiceStartDate service = [] \<or>
         jle (pricePaid service) (Fin 0)
      then Some (FillInAllFields
             (if serviceName service = [] then ''Unnamed Service'' else serviceName service))
      else
        let invoiceStart = parseDate (invoiceStartDate service);
            invoiceEnd = parseDate (invoiceEndDate service)
        in if jge (getTime invoiceStart) (getTime invoiceEnd)
           then Some (EndDateMustBeAfterStart (serviceName service))
           else validateServices parseDate rest)"

text \<open>
  The body of the second loop after its two date checks: the calculation of one service.
\<close>

definition serviceCalculation :: "(string \<Rightarrow> Date) \<Rightarrow> number \<Rightarrow> ServiceItem \<Rightarrow> CreditCalculation" where
  "serviceCalculation parseDate taxRate service =
     (let invoiceStart = parseDate (invoiceStartDate service);
          invoiceEnd = parseDate (invoiceEndDate service);
          serviceStart = parseDate (actualServiceStartDate service);
          totalBillingDays' = calculateDaysBetween invoiceStart invoiceEnd;
          daysWithoutService' = jsub (calculateDaysBetween invoiceStart serviceStart) (Fin 1);
          dailyRate' = jdiv (pricePaid service) totalBillingDays';
          creditAmount' = jmul dailyRate' (Math_max (Fin 0) daysWithoutService');
          taxOnCredit' = jmul creditAmount' (jdiv taxRate (Fin 100));
          totalCreditWithTax' = jadd creditAmount' taxOnCredit'
      in \<lparr> calc_id = item_id service,
           calc_serviceName = serviceName service,
           totalBillingDays = totalBillingDays',
           daysWithoutService = Math_max (Fin 0) daysWithoutService',
           dailyRate = dailyRate',
           creditAmount = creditAmount',
           taxOnCredit = taxOnCredit',
           totalCreditWithTax = totalCreditWithTax' \<rparr>)"

text \<open>
  The second loop, with its three accumulators \<^verbatim>\<open>serviceCalculations\<close>,
  \<^verbatim>\<open>totalCreditAmount\<close> and \<^verbatim>\<open>totalTaxOnCredit\<close>. A service start before the
  invoice start, or after the invoice end, ends the method with an alert.
\<close>

fun creditLoop :: "(string \<Rightarrow> Date) \<Rightarrow> number \<Rightarrow> ServiceItem list \<Rightarrow>
    CreditCalculation list \<times> number \<times> number \<Rightarrow>
    alert + CreditCalculation list \<times> number \<times> number" where
  "creditLoop parseDate taxRate [] acc = Inr acc"
| "creditLoop parseDate taxRate (service # rest) (serviceCalculations, totalCredit, totalTax) =
     (let invoiceStart = parseDate (invoiceStartDate service);
          invoiceEnd = parseDate (invoiceEndDate service);
          serviceStart = parseDate (actualServiceStartDate service)
      in if jlt (getTime serviceStart) (getTime invoiceStart)
         then Inl (StartBeforeInvoiceStart (serviceName service))
         else if jgt (getTime serviceStart) (getTime invoiceEnd)
         then Inl (StartAfterInvoiceEnd (serviceName service))
         else
           let c = serviceCalculation parseDate taxRate service
           in creditLoop parseDate taxRate rest
                (serviceCalculations @ [c],
                 jadd totalCredit (creditAmount c),
                 jadd totalTax (taxOnCredit c)))"

text \<open>
  \<^verbatim>\<open>calculateCredit()\<close> of the component, as a function of the signals it reads
  (\<^verbatim>\<open>taxRate\<close> and \<^verbatim>\<open>services\<close>): \<open>Inl\<close> is an alert with no result set,
  \<open>Inr\<close> is the value given to \<^verbatim>\<open>calculationResult.set\<close>.
\<close>

definition calculateCredit :: "(string \<Rightarrow> Date) \<Rightarrow> number \<Rightarrow> ServiceItem list \<Rightarrow>
    alert + CombinedCreditResult" where
  "calculateCredit parseDate taxRate svcs =
     (if length svcs = 0 then Inl AddAtLeastOneService
      else case validateServices parseDate svcs of
        Some a \<Rightarrow> Inl a
      | None \<Rightarrow>
          (case creditLoop parseDate taxRate svcs ([], Fin 0, Fin 0) of
             Inl a \<Rightarrow> Inl a
           | Inr (serviceCalculations, totalCredit, totalTax) \<Rightarrow>
               Inr \<lparr> services = serviceCalculations,
                     totalCreditAmount = totalCredit,
                     totalTaxOnCredit = totalTax,
                     grandTotalWithTax = jadd totalCredit totalTax \<rparr>))"

text \<open>
  The conditions of the specification under which the calculation is refused, for one
  service: a required field is missing, the price is not positive, the billing period
  ends on or before its start, the service starts before the billing period, or the
  service starts after the billing period. Dates are compared by their time values.
\<close>

definition missingRequiredField :: "ServiceItem \<Rightarrow> bool" where
  "missingRequiredField service =
     (serviceName service = [] \<or> invoiceStartDate service = [] \<or>
      invoiceEndDate service = [] \<or> actualServiceStartDate service = [])"

definition failsCheck :: "(string \<Rightarrow> Date) \<Rightarrow> ServiceItem \<Rightarrow> bool" where
  "failsCheck parseDate service =
     (missingRequiredField service \<or>
      jle (pricePaid service) (Fin 0) \<or>
      jle (getTime (parseDate (invoiceEndDate service)))
          (getTime (parseDate (invoiceStartDate service))) \<or>
      jlt (getTime (parseDate (actualServiceStartDate service)))
          (getTime (parseDate (invoiceStartDate service))) \<or>
      jgt (getTime (parseDate (actualServiceStartDate service)))
          (getTime (parseDate (invoiceEndDate service))))"

definition someFailsCheck :: "(string \<Rightarrow> Date) \<Rightarrow> ServiceItem list \<Rightarrow> bool" where
  "someFailsCheck parseDate svcs = list_ex (failsCheck parseDate) svcs"

text \<open>
  The earlier, single-service version of the component keeps the four inputs in signals
  of their own and has no service name. Its result and its alerts:
\<close>

record SingleCreditCalculation =
  singleTotalBillingDays :: number
  singleDaysWithoutService :: number
  singleDailyRate :: number
  singleCreditAmount :: number
  singleTaxOnCredit :: number
  singleTotalCreditWithTax :: number

datatype singleAlert =
    FillInRequiredFields
  | InvoiceEndMustBeAfterStart
  | ServiceStartBeforeInvoiceStart
  | ServiceStartAfterInvoiceEnd

definition calculateCreditSingle :: "(string \<Rightarrow> Date) \<Rightarrow> string \<Rightarrow> string \<Rightarrow> number \<Rightarrow> string \<Rightarrow>
    number \<Rightarrow> singleAlert + SingleCreditCalculation" where
  "calculateCreditSingle parseDate startField endField price serviceField taxRate =
     (if startField = [] \<or> endField = [] \<or> serviceField = [] \<or> jle price (Fin 0)
      then Inl FillInRequiredFields
      else
        let invoiceStart = parseDate startField;
            invoiceEnd = parseDate endField;
            serviceStart = parseDate serviceField
        in if jge (getTime invoiceStart) (getTime invoiceEnd)
           then Inl InvoiceEndMustBeAfterStart
           else if jlt (getTime serviceStart) (getTime invoiceStart)
           then Inl ServiceStartBeforeInvoiceStart
           else if jgt (getTime serviceStart) (getTime invoiceEnd)
           then Inl ServiceStartAfterInvoiceEnd
           else
             let totalBillingDays' = calculateDaysBetween invoiceStart invoiceEnd;
                 daysWithoutService' =
                   jsub (calculateDaysBetween invoiceStart serviceStart) (Fin 1);
                 dailyRate' = jdiv price totalBillingDays';
                 creditAmount' = jmul dailyRate' (Math_max (Fin 0) daysWithoutService');
                 taxOnCredit' = jmul creditAmount' (jdiv taxRate (Fin 100));
                 totalCreditWithTax' = jadd creditAmount' taxOnCredit'
             in Inr \<lparr> singleTotalBillingDays = totalBillingDays',
                       singleDaysWithoutService = Math_max (Fin 0) daysWithoutService',
                       singleDailyRate = dailyRate',
                       singleCreditAmount = creditAmount',
                       singleTaxOnCredit = taxOnCredit',
                       singleTotalCreditWithTax = totalCreditWithTax' \<rparr>)"

text \<open>
  A date that is not an Invalid Date, and a number that is a finite double: what the
  specification's calendar dates and amounts are.
\<close>

fun isValidDate :: "Date \<Rightarrow> bool" where
  "isValidDate (TimeValue t) = (\<bar>t\<bar> \<le> 8640000000000000)"
| "isValidDate InvalidDate = False"

fun isFinite :: "number \<Rightarrow> bool" where
  "isFinite (Fin a) = isDouble a"
| "isFinite x = False"

definition hasValidDates :: "(string \<Rightarrow> Date) \<Rightarrow> ServiceItem \<Rightarrow> bool" where
  "hasValidDates parseDate service =
     (isValidDate (parseDate (invoiceStartDate service)) \<and>
      isValidDate (parseDate (invoiceEndDate service)) \<and>
      isValidDate (parseDate (actualServiceStartDate service)))"

text \<open>
  Sums of numbers, from left to right and starting at zero, as the accumulators of the
  loop and \<^verbatim>\<open>reduce\<close> form them.
\<close>

definition sumNumbers :: "number list \<Rightarrow> number" where
  "sumNumbers xs = foldl jadd (Fin 0) xs"

text \<open>
  The calendar day (in UTC) on which a time value falls, and the dates of the examples:
  the date-only strings the form produces denote midnight UTC of their day.
\<close>

definition calendarDay :: "int \<Rightarrow> int" where
  "calendarDay t = t div 86400000"

text \<open>
  The value of \<^verbatim>\<open>Math.ceil(timeDiff / (1000 * 3600 * 24))\<close> for the time values \<open>s\<close>
  and \<open>e\<close> of the start and the end: the difference and the quotient are both rounded.
\<close>

definition roundedDays :: "int \<Rightarrow> int \<Rightarrow> int" where
  "roundedDays s e = \<lceil>nearestDouble (nearestDouble (of_int (e - s)) / 86400000)\<rceil>"

definition exampleDate :: "string \<Rightarrow> Date" where
  "exampleDate s =
     (if s = ''2024-01-01'' then TimeValue 1704067200000
      else if s = ''2024-01-05'' then TimeValue 1704412800000
      else if s = ''2024-01-10'' then TimeValue 1704844800000
      else if s = ''2024-01-15'' then TimeValue 1705276800000
      else if s = ''2024-01-31'' then TimeValue 1706659200000
      else if s = ''2024-02-01'' then TimeValue 1706745600000
      else if s = ''2024-02-29'' then TimeValue 1709164800000
      else InvalidDate)"

text \<open>
  The service of the component's sample data, on the billing period of January 2024, and
  a second service on February 2024. A price is the double that its decimal literal
  denotes: \<^verbatim>\<open>79.99\<close> is \<open>5628795846771343 / 2 ^ 46\<close>.
\<close>

definition exampleService :: ServiceItem where
  "exampleService =
     \<lparr> item_id = 1, serviceName = ''Internet Service'',
       invoiceStartDate = ''2024-01-01'', invoiceEndDate = ''2024-01-31'',
       pricePaid = Fin (5628795846771343 / 2 ^ 46),
       actualServiceStartDate = ''2024-01-10'' \<rparr>"

definition exampleService2 :: ServiceItem where
  "exampleService2 =
     \<lparr> item_id = 2, serviceName = ''Static IP Address'',
       invoiceStartDate = ''2024-02-01'', invoiceEndDate = ''2024-02-29'',
       pricePaid = Fin 15, actualServiceStartDate = ''2024-02-01'' \<rparr>"

text \<open>
  Services on the billing period of January 2024 with the prices \<^verbatim>\<open>10.01\<close>
  (\<open>5635129033747333 / 2 ^ 49\<close>) and \<^verbatim>\<open>10.03\<close> (\<open>5646388032815759 / 2 ^ 49\<close>), and
  a service of five billing days that starts on the last of them, with the price
  \<^verbatim>\<open>1.5e-323\<close> (\<open>3 / 2 ^ 1074\<close>, three times the smallest positive double).
\<close>

definition serviceA :: ServiceItem where
  "serviceA =
     \<lparr> item_id = 1, serviceName = ''A'',
       invoiceStartDate = ''2024-01-01'', invoiceEndDate = ''2024-01-31'',
       pricePaid = Fin (5635129033747333 / 2 ^ 49),
       actualServiceStartDate = ''2024-01-10'' \<rparr>"

definition serviceB :: ServiceItem where
  "serviceB =
     \<lparr> item_id = 2, serviceName = ''B'',
       invoiceStartDate = ''2024-01-01'', invoiceEndDate = ''2024-01-31'',
       pricePaid = Fin (5635129033747333 / 2 ^ 49),
       actualServiceStartDate = ''2024-01-10'' \<rparr>"

definition serviceC :: ServiceItem where
  "serviceC =
     \<lparr> item_id = 3, serviceName = ''C'',
       invoiceStartDate = ''2024-01-01'', invoiceEndDate = ''2024-01-31'',
       pricePaid = Fin (5646388032815759 / 2 ^ 49),
       actualServiceStartDate = ''2024-01-10'' \<rparr>"

definition tinyService :: ServiceItem where
  "tinyService =
     \<lparr> item_id = 1, serviceName = ''Tiny'',
       invoiceStartDate = ''2024-01-01'', invoiceEndDate = ''2024-01-05'',
       pricePaid = Fin (3 / 2 ^ 1074),
       actualServiceStartDate = ''2024-01-05'' \<rparr>"

section \<open>Invoice-item-credit mode: the credit calculation service\<close>

text \<open>
  The interfaces of \<^verbatim>\<open>models/invoice.model.ts\<close>. Every \<^verbatim>\<open>id\<close> field carries the
  name of its record, \<^verbatim>\<open>total\<close> is \<open>invoiceTotal\<close>, and the fields of the service's
  \<^verbatim>\<open>CreditCalculation\<close> that the component's interface of the same name also has are
  prefixed with \<open>item\<close>. An optional field is an \<open>option\<close>.
\<close>

record Customer =
  customer_id :: string
  name :: string
  email :: string
  accountNumber :: string

record InvoiceItem =
  invoiceItem_id :: string
  description :: string
  unitPrice :: number
  quantity :: number
  serviceStartDate :: Date
  serviceEndDate :: Date
  isProrated :: "bool option"

record Invoice =
  invoice_id :: string
  customer :: Customer
  invoiceNumber :: string
  invoiceDate :: Date
  dueDate :: Date
  items :: "InvoiceItem list"
  subtotal :: number
  taxRate :: number
  taxAmount :: number
  invoiceTotal :: number

record CreditRequest =
  invoiceId :: string
  customerId :: string
  creditReason :: string
  requestDate :: Date
  itemsToCredit :: "string list"
  creditStartDate :: "Date option"
  creditEndDate :: "Date option"
  isPartialCredit :: bool

record ItemCreditCalculation =
  originalAmount :: number
  proratedAmount :: number
  itemCreditAmount :: number
  itemTaxOnCredit :: number
  itemTotalCreditWithTax :: number
  creditPercentage :: number
  daysInBillingPeriod :: number
  daysCredited :: number

record CreditResult =
  request :: CreditRequest
  calculations :: "ItemCreditCalculation list"
  totalCredit :: number
  totalTax :: number
  finalCreditAmount :: number
  calculationDate :: Date

text \<open>
  \<^verbatim>\<open>calculateItemCredit(item, creditRequest, taxRate)\<close>. A \<^verbatim>\<open>Date\<close> object is truthy,
  so the condition of the prorated branch is that the request is partial and both
  credit dates are present.
\<close>

definition calculateItemCredit :: "InvoiceItem \<Rightarrow> CreditRequest \<Rightarrow> number \<Rightarrow> ItemCreditCalculation" where
  "calculateItemCredit item creditRequest rate =
     (let originalAmount' = jmul (unitPrice item) (quantity item);
          (creditAmount', proratedAmount', creditPercentage', daysInBillingPeriod', daysCredited') =
            (case (isPartialCredit creditRequest, creditStartDate creditRequest,
                   creditEndDate creditRequest) of
               (True, Some creditStart, Some creditEnd) \<Rightarrow>
                 let billingPeriodDays =
                       calculateDaysBetween (serviceStartDate item) (serviceEndDate item);
                     creditDays = calculateDaysBetween creditStart creditEnd;
                     percentage = jdiv creditDays billingPeriodDays;
                     prorated = jmul originalAmount' percentage
                 in (prorated, prorated, percentage, billingPeriodDays, creditDays)
             | _ \<Rightarrow>
                 let billingPeriodDays =
                       calculateDaysBetween (serviceStartDate item) (serviceEndDate item)
                 in (originalAmount', originalAmount', Fin 1, billingPeriodDays, billingPeriodDays));
          taxOnCredit' = jmul creditAmount' (jdiv rate (Fin 100))
      in \<lparr> originalAmount = originalAmount',
           proratedAmount = proratedAmount',
           itemCreditAmount = creditAmount',
           itemTaxOnCredit = taxOnCredit',
           itemTotalCreditWithTax = jadd creditAmount' taxOnCredit',
           creditPercentage = creditPercentage',
           daysInBillingPeriod = daysInBillingPeriod',
           daysCredited = daysCredited' \<rparr>)"

text \<open>
  The loop of the service's \<^verbatim>\<open>calculateCredit\<close> over \<^verbatim>\<open>creditRequest.itemsToCredit\<close>:
  \<^verbatim>\<open>invoice.items.find(i => i.id === itemId)\<close> is the first item with that id, and an
  id that no item has adds nothing.
\<close>

fun creditItems :: "Invoice \<Rightarrow> CreditRequest \<Rightarrow> string list \<Rightarrow>
    ItemCreditCalculation list \<Rightarrow> ItemCreditCalculation list" where
  "creditItems invoice creditRequest [] calcs = calcs"
| "creditItems invoice creditRequest (itemId # rest) calcs =
     (case find (\<lambda>i. invoiceItem_id i = itemId) (items invoice) of
        Some item \<Rightarrow>
          creditItems invoice creditRequest rest
            (calcs @ [calculateItemCredit item creditRequest (taxRate invoice)])
      | None \<Rightarrow> creditItems invoice creditRequest rest calcs)"

text \<open>
  \<^verbatim>\<open>calculateCredit(invoice, creditRequest)\<close> of the service; \<open>now\<close> is the value of
  \<^verbatim>\<open>new Date()\<close> at the call.
\<close>

definition serviceCalculateCredit :: "Date \<Rightarrow> Invoice \<Rightarrow> CreditRequest \<Rightarrow> CreditResult" where
  "serviceCalculateCredit now invoice creditRequest =
     (let calcs = creditItems invoice creditRequest (itemsToCredit creditRequest) [];
          totalCredit' = foldl (\<lambda>sum calc. jadd sum (itemCreditAmount calc)) (Fin 0) calcs;
          totalTax' = foldl (\<lambda>sum calc. jadd sum (itemTaxOnCredit calc)) (Fin 0) calcs;
          finalCreditAmount' = jadd totalCredit' totalTax'
      in \<lparr> request = creditRequest,
           calculations = calcs,
           totalCredit = totalCredit',
           totalTax = totalTax',
           finalCreditAmount = finalCreditAmount',
           calculationDate = now \<rparr>)"

text \<open>The item of the invoice that an id of the request names, if there is one.\<close>

definition itemWithId :: "Invoice \<Rightarrow> string \<Rightarrow> InvoiceItem option" where
  "itemWithId invoice itemId = find (\<lambda>i. invoiceItem_id i = itemId) (items invoice)"

text \<open>
  \<^verbatim>\<open>createSampleInvoice()\<close> of the service, with \<open>parseDate\<close> for its
  \<^verbatim>\<open>new Date('2024-01-01')\<close> and each decimal literal as the double it denotes, and a
  request against it that names the second item, an
  id that the invoice does not have, and the first item, for the first ten days of the
  month.
\<close>

definition createSampleInvoice :: "(string \<Rightarrow> Date) \<Rightarrow> Invoice" where
  "createSampleInvoice parseDate =
     (let serviceStart = parseDate ''2024-01-01'';
          serviceEnd = parseDate ''2024-01-31''
      in \<lparr> invoice_id = ''INV-001'',
           customer = \<lparr> customer_id = ''CUST-001'', name = ''Sample Customer'',
                        email = [], accountNumber = [] \<rparr>,
           invoiceNumber = ''SAMPLE-001'',
           invoiceDate = parseDate ''2024-01-01'',
           dueDate = parseDate ''2024-01-15'',
           items =
             [\<lparr> invoiceItem_id = ''ITEM-001'',
                description = ''High-Speed Internet Service - 100 Mbps'',
                unitPrice = Fin (5628795846771343 / 2 ^ 46), quantity = Fin 1,
                serviceStartDate = serviceStart, serviceEndDate = serviceEnd,
                isProrated = Some False \<rparr>,
              \<lparr> invoiceItem_id = ''ITEM-002'',
                description = ''Static IP Address'',
                unitPrice = Fin 15, quantity = Fin 1,
                serviceStartDate = serviceStart, serviceEndDate = serviceEnd,
                isProrated = Some False \<rparr>],
           subtotal = Fin (6684327009436303 / 2 ^ 46),
           taxRate = Fin 13,
           taxAmount = Fin (1135751531027497 / 2 ^ 47),
           invoiceTotal = Fin (1813050693737513 / 2 ^ 44) \<rparr>)"

definition exampleRequest :: CreditRequest where
  "exampleRequest =
     \<lparr> invoiceId = ''INV-001'', customerId = ''CUST-001'',
       creditReason = ''Service outage'',
       requestDate = TimeValue 1706745600000,
       itemsToCredit = [''ITEM-002'', ''ITEM-404'', ''ITEM-001''],
       creditStartDate = Some (TimeValue 1704067200000),
       creditEndDate = Some (TimeValue 1704844800000),
       isPartialCredit = True \<rparr>"

section \<open>Rounding to the nearest double\<close>

lemma ilog2_bounds:
  assumes "x \<noteq> 0"
  shows "2 powi ilog2 x \<le> \<bar>x\<bar>" and "\<bar>x\<bar> < 2 powi (ilog2 x + 1)"
proof -
  have "2 powi ilog2 x \<le> \<bar>x\<bar> \<and> \<bar>x\<bar> < 2 powi (ilog2 x + 1)"
  proof (cases "1 \<le> \<bar>x\<bar>")
    case True
    let ?n = "\<lfloor>\<bar>x\<bar>\<rfloor>"
    from True have n: "0 < ?n" by linarith
    from bitlen_bounds [OF n] have lo: "2 ^ nat (bitlen ?n - 1) \<le> ?n"
      and hi: "?n < 2 ^ nat (bitlen ?n)" by simp_all
    from n have b1: "1 \<le> bitlen ?n" by (auto simp: bitlen_alt_def)
    have i: "ilog2 x = bitlen ?n - 1" using True by (simp add: ilog2_def)
    have "(2::real) powi (bitlen ?n - 1) = 2 ^ nat (bitlen ?n - 1)"
      using b1 by (simp add: power_int_nonneg_exp)
    also have "\<dots> = of_int (2 ^ nat (bitlen ?n - 1))" by simp
    also have "\<dots> \<le> of_int ?n" using lo by (simp only: of_int_le_iff)
    also have "\<dots> \<le> \<bar>x\<bar>" by simp
    finally have A: "2 powi ilog2 x \<le> \<bar>x\<bar>" unfolding i .
    from hi have "?n + 1 \<le> 2 ^ nat (bitlen ?n)" by simp
    then have "(of_int (?n + 1) :: real) \<le> of_int (2 ^ nat (bitlen ?n))"
      by (simp only: of_int_le_iff)
    then have h: "of_int ?n + 1 \<le> (2::real) ^ nat (bitlen ?n)" by simp
    have "\<bar>x\<bar> < of_int ?n + 1" by linarith
    with h have "\<bar>x\<bar> < 2 ^ nat (bitlen ?n)" by linarith
    also have "\<dots> = 2 powi (bitlen ?n)" using b1 by (simp add: power_int_nonneg_exp)
    finally have B: "\<bar>x\<bar> < 2 powi (ilog2 x + 1)" unfolding i by simp
    from A B show ?thesis ..
  next
    case False
    let ?y = "1 / \<bar>x\<bar>"
    let ?c = "\<lceil>?y\<rceil>"
    from False assms have x1: "0 < \<bar>x\<bar>" "\<bar>x\<bar> < 1" by simp_all
    then have y1: "1 < ?y" by simp
    then have c: "0 < ?c - 1" by linarith
    from bitlen_bounds [OF c] have lo: "2 ^ nat (bitlen (?c - 1) - 1) \<le> ?c - 1"
      and hi: "?c - 1 < 2 ^ nat (bitlen (?c - 1))" by simp_all
    let ?b = "bitlen (?c - 1)"
    from c have b1: "1 \<le> ?b" by (auto simp: bitlen_alt_def)
    have i: "ilog2 x = - ?b" using False by (simp add: ilog2_def)
    from hi have "?c \<le> 2 ^ nat ?b" by simp
    then have "(of_int ?c :: real) \<le> of_int (2 ^ nat ?b)" by (simp only: of_int_le_iff)
    moreover have "?y \<le> of_int ?c" by linarith
    ultimately have "?y \<le> of_int (2 ^ nat ?b)" by linarith
    then have "?y \<le> 2 ^ nat ?b" by simp
    then have "1 \<le> 2 ^ nat ?b * \<bar>x\<bar>" using x1 by (simp add: field_simps)
    then have "1 / 2 ^ nat ?b \<le> \<bar>x\<bar>" by (simp add: field_simps)
    moreover have "(2::real) powi (- ?b) = 1 / 2 ^ nat ?b"
      using b1 by (simp add: power_int_minus_divide power_int_nonneg_exp)
    ultimately have A: "2 powi ilog2 x \<le> \<bar>x\<bar>" unfolding i by simp
    have "(of_int (2 ^ nat (?b - 1)) :: real) \<le> of_int (?c - 1)"
      using lo by (simp only: of_int_le_iff)
    moreover have "of_int (?c - 1) < ?y" by linarith
    ultimately have "of_int (2 ^ nat (?b - 1)) < ?y" by linarith
    then have "2 ^ nat (?b - 1) < ?y" by simp
    then have "2 ^ nat (?b - 1) * \<bar>x\<bar> < 1" using x1 by (simp add: field_simps)
    then have "\<bar>x\<bar> < 1 / 2 ^ nat (?b - 1)" by (simp add: field_simps)
    moreover have "(2::real) powi (- ?b + 1) = 1 / 2 ^ nat (?b - 1)"
    proof -
      have "(2::real) powi (- ?b + 1) = 2 powi (- (?b - 1))" by simp
      also have "\<dots> = 1 / 2 powi (?b - 1)" by (rule power_int_minus_divide)
      also have "\<dots> = 1 / 2 ^ nat (?b - 1)" using b1 by (simp add: power_int_nonneg_exp)
      finally show ?thesis .
    qed
    ultimately have B: "\<bar>x\<bar> < 2 powi (ilog2 x + 1)" unfolding i by simp
    from A B show ?thesis ..
  qed
  then show "2 powi ilog2 x \<le> \<bar>x\<bar>" and "\<bar>x\<bar> < 2 powi (ilog2 x + 1)" by simp_all
qed

lemma pow2_mono: "a \<le> b \<Longrightarrow> (2::real) powi a \<le> 2 powi b"
  by (rule power_int_increasing) simp_all

lemma pow2_less_imp_less: "(2::real) powi a < 2 powi b \<Longrightarrow> a < b"
proof (rule ccontr)
  assume lt: "(2::real) powi a < 2 powi b" and "\<not> a < b"
  then have "b \<le> a" by simp
  then have "(2::real) powi b \<le> 2 powi a" by (rule pow2_mono)
  with lt show False by simp
qed

lemma ilog2_unique:
  assumes "2 powi k \<le> \<bar>x\<bar>" and "\<bar>x\<bar> < 2 powi (k + 1)"
  shows "ilog2 x = k"
proof -
  have "(0::real) < 2 powi k" by simp
  with assms(1) have "0 < \<bar>x\<bar>" by linarith
  then have nz: "x \<noteq> 0" by simp
  note b = ilog2_bounds [OF nz]
  have "(2::real) powi ilog2 x < 2 powi (k + 1)" using b(1) assms(2) by linarith
  then have "ilog2 x < k + 1" by (rule pow2_less_imp_less)
  moreover have "(2::real) powi k < 2 powi (ilog2 x + 1)" using b(2) assms(1) by linarith
  then have "k < ilog2 x + 1" by (rule pow2_less_imp_less)
  ultimately show ?thesis by simp
qed


lemma roundHalfEven_cases:
  "roundHalfEven r = \<lfloor>r\<rfloor> \<or> roundHalfEven r = \<lfloor>r\<rfloor> + 1"
  by (simp add: roundHalfEven_def Let_def)

lemma roundHalfEven_of_int [simp]: "roundHalfEven (of_int n) = n"
  by (simp add: roundHalfEven_def Let_def)

lemma roundHalfEven_error: "\<bar>of_int (roundHalfEven r) - r\<bar> \<le> 1 / 2"
proof -
  have "of_int \<lfloor>r\<rfloor> \<le> r" "r < of_int \<lfloor>r\<rfloor> + 1" by linarith+
  then show ?thesis by (auto simp: roundHalfEven_def Let_def)
qed

lemma roundHalfEven_lower: "of_int a \<le> r \<Longrightarrow> a \<le> roundHalfEven r"
proof -
  assume "of_int a \<le> r"
  then have "a \<le> \<lfloor>r\<rfloor>" by (simp add: le_floor_iff)
  with roundHalfEven_cases [of r] show ?thesis by auto
qed

lemma roundHalfEven_upper: "r \<le> of_int b \<Longrightarrow> roundHalfEven r \<le> b"
proof (cases "r = of_int b")
  case True
  then show ?thesis by simp
next
  case False
  assume "r \<le> of_int b"
  with False have "r < of_int b" by simp
  then have "\<lfloor>r\<rfloor> < b" by (simp add: floor_less_iff)
  with roundHalfEven_cases [of r] show ?thesis by auto
qed

lemma roundHalfEven_mono: "r \<le> r' \<Longrightarrow> roundHalfEven r \<le> roundHalfEven r'"
proof -
  assume le: "r \<le> r'"
  then have fl: "\<lfloor>r\<rfloor> \<le> \<lfloor>r'\<rfloor>" by (rule floor_mono)
  show ?thesis
  proof (cases "\<lfloor>r\<rfloor> = \<lfloor>r'\<rfloor>")
    case True
    with le show ?thesis by (auto simp: roundHalfEven_def Let_def)
  next
    case False
    with fl have "\<lfloor>r\<rfloor> + 1 \<le> \<lfloor>r'\<rfloor>" by simp
    with roundHalfEven_cases [of r] roundHalfEven_cases [of r'] show ?thesis by auto
  qed
qed


lemma roundHalfEven_zero [simp]: "roundHalfEven 0 = 0"
  using roundHalfEven_of_int [of 0] by simp

lemma nearestDouble_zero [simp]: "nearestDouble 0 = 0"
  by (simp add: nearestDouble_def)

lemma nearestDouble_error: "\<bar>nearestDouble x - x\<bar> \<le> 2 powi ulpExponent x / 2"
proof -
  let ?P = "(2::real) powi ulpExponent x"
  have P: "0 < ?P" by simp
  have "nearestDouble x - x = (of_int (roundHalfEven (x / ?P)) - x / ?P) * ?P"
    using P by (simp add: nearestDouble_def field_simps)
  then have "\<bar>nearestDouble x - x\<bar> = \<bar>of_int (roundHalfEven (x / ?P)) - x / ?P\<bar> * ?P"
    using P by (simp add: abs_mult)
  also have "\<dots> \<le> 1 / 2 * ?P"
    using roundHalfEven_error [of "x / ?P"] P by (intro mult_right_mono) simp_all
  finally show ?thesis by simp
qed

lemma nearestDouble_exact:
  assumes "x / 2 powi ulpExponent x = of_int m"
  shows "nearestDouble x = x"
proof -
  have "nearestDouble x = of_int m * 2 powi ulpExponent x"
    unfolding nearestDouble_def assms by simp
  also have "\<dots> = x" using assms by (simp add: field_simps)
  finally show ?thesis .
qed

lemma nearestDouble_nonneg: "0 \<le> x \<Longrightarrow> 0 \<le> nearestDouble x"
proof -
  assume "0 \<le> x"
  then have "of_int 0 \<le> x / 2 powi ulpExponent x" by simp
  then have "0 \<le> roundHalfEven (x / 2 powi ulpExponent x)" by (rule roundHalfEven_lower)
  then show ?thesis by (simp add: nearestDouble_def)
qed

lemma ilog2_mono:
  assumes "x \<noteq> 0" and "\<bar>x\<bar> \<le> \<bar>y\<bar>"
  shows "ilog2 x \<le> ilog2 y"
proof -
  from assms have y: "y \<noteq> 0" by auto
  have "(2::real) powi ilog2 x < 2 powi (ilog2 y + 1)"
    using ilog2_bounds(1) [OF assms(1)] ilog2_bounds(2) [OF y] assms(2) by linarith
  then have "ilog2 x < ilog2 y + 1" by (rule pow2_less_imp_less)
  then show ?thesis by simp
qed

lemma ulpExponent_mono: "x \<noteq> 0 \<Longrightarrow> \<bar>x\<bar> \<le> \<bar>y\<bar> \<Longrightarrow> ulpExponent x \<le> ulpExponent y"
  using ilog2_mono [of x y] by (simp add: ulpExponent_def)

lemma pow2_split: "(2::real) powi (a + b) = 2 powi a * 2 powi b"
  by (simp add: power_int_add)

lemma nearestDouble_upper:
  assumes "0 < x"
  shows "nearestDouble x \<le> 2 powi (ulpExponent x + 53)"
proof -
  let ?E = "ulpExponent x"
  from assms have nz: "x \<noteq> 0" by simp
  have "x < 2 powi (ilog2 x + 1)" using ilog2_bounds(2) [OF nz] assms by simp
  also have "\<dots> \<le> 2 powi (?E + 53)" by (rule pow2_mono) (simp add: ulpExponent_def)
  also have "\<dots> = 2 powi ?E * 2 ^ 53" by (simp add: pow2_split)
  finally have "x / 2 powi ?E \<le> of_int (2 ^ 53)" by (simp add: field_simps)
  then have "roundHalfEven (x / 2 powi ?E) \<le> 2 ^ 53" by (rule roundHalfEven_upper)
  then have "(of_int (roundHalfEven (x / 2 powi ?E)) :: real) \<le> of_int (2 ^ 53)"
    by (simp only: of_int_le_iff)
  then have "nearestDouble x \<le> of_int (2 ^ 53) * 2 powi ?E"
    unfolding nearestDouble_def by (intro mult_right_mono) simp_all
  also have "\<dots> = 2 powi (?E + 53)" by (simp add: pow2_split)
  finally show ?thesis .
qed

lemma nearestDouble_lower:
  assumes "0 < x" and "- 1022 \<le> ilog2 x"
  shows "2 powi (ulpExponent x + 52) \<le> nearestDouble x"
proof -
  let ?E = "ulpExponent x"
  from assms have nz: "x \<noteq> 0" by simp
  from assms(2) have E: "?E + 52 = ilog2 x" by (simp add: ulpExponent_def)
  have "2 powi (?E + 52) \<le> x" using ilog2_bounds(1) [OF nz] assms(1) unfolding E by simp
  moreover have "(2::real) powi (?E + 52) = 2 powi ?E * 2 ^ 52" by (simp add: pow2_split)
  ultimately have "of_int (2 ^ 52) \<le> x / 2 powi ?E" by (simp add: field_simps)
  then have "2 ^ 52 \<le> roundHalfEven (x / 2 powi ?E)" by (rule roundHalfEven_lower)
  then have "(of_int (2 ^ 52) :: real) \<le> of_int (roundHalfEven (x / 2 powi ?E))"
    by (simp only: of_int_le_iff)
  then have "of_int (2 ^ 52) * 2 powi ?E \<le> nearestDouble x"
    unfolding nearestDouble_def by (intro mult_right_mono) simp_all
  moreover have "of_int (2 ^ 52) * 2 powi ?E = (2::real) powi (?E + 52)" by (simp add: pow2_split)
  ultimately show ?thesis by simp
qed

lemma nearestDouble_mono:
  assumes "0 \<le> x" and "x \<le> y"
  shows "nearestDouble x \<le> nearestDouble y"
proof (cases "x = 0")
  case True
  with assms nearestDouble_nonneg [of y] show ?thesis by simp
next
  case False
  with assms have x: "0 < x" and y: "0 < y" by simp_all
  have E: "ulpExponent x \<le> ulpExponent y" using False assms by (intro ulpExponent_mono) simp_all
  show ?thesis
  proof (cases "ulpExponent x = ulpExponent y")
    case True
    have "x / 2 powi ulpExponent y \<le> y / 2 powi ulpExponent y"
      using assms(2) by (simp add: divide_right_mono)
    then have "roundHalfEven (x / 2 powi ulpExponent y) \<le> roundHalfEven (y / 2 powi ulpExponent y)"
      by (rule roundHalfEven_mono)
    then have "(of_int (roundHalfEven (x / 2 powi ulpExponent y)) :: real) \<le>
        of_int (roundHalfEven (y / 2 powi ulpExponent y))"
      by (simp only: of_int_le_iff)
    then show ?thesis unfolding nearestDouble_def True by (intro mult_right_mono) simp_all
  next
    case False
    with E have lt: "ulpExponent x < ulpExponent y" by simp
    then have "- 1022 \<le> ilog2 y" by (auto simp: ulpExponent_def)
    from nearestDouble_lower [OF y this] have "2 powi (ulpExponent y + 52) \<le> nearestDouble y" .
    moreover have "(2::real) powi (ulpExponent x + 53) \<le> 2 powi (ulpExponent y + 52)"
      using lt by (intro pow2_mono) simp
    ultimately show ?thesis using nearestDouble_upper [OF x] by linarith
  qed
qed


lemma nearestDouble_scaled_int:
  assumes m: "\<bar>m\<bar> < 2 ^ 53" and e: "- 1074 \<le> e"
  shows "nearestDouble (of_int m * 2 powi e) = of_int m * 2 powi e"
proof (cases "m = 0")
  case True
  then show ?thesis by simp
next
  case False
  let ?x = "of_int m * (2::real) powi e"
  let ?E = "ulpExponent ?x"
  from False have nz: "?x \<noteq> 0" by simp
  have "(of_int \<bar>m\<bar> :: real) < of_int (2 ^ 53)" using m by (simp only: of_int_less_iff)
  then have "\<bar>of_int m :: real\<bar> < 2 ^ 53" by simp
  then have "\<bar>?x\<bar> < 2 ^ 53 * 2 powi e" by (simp add: abs_mult)
  also have "\<dots> = 2 powi (53 + e)" by (simp add: pow2_split)
  finally have "(2::real) powi ilog2 ?x < 2 powi (53 + e)"
    using ilog2_bounds(1) [OF nz] by linarith
  then have "ilog2 ?x < 53 + e" by (rule pow2_less_imp_less)
  with e have E: "?E \<le> e" by (simp add: ulpExponent_def)
  define P where "P = (2::real) powi ?E"
  define Q where "Q = (2::real) ^ nat (e - ?E)"
  have P: "0 < P" by (simp add: P_def)
  have "(2::real) powi e = 2 powi ?E * 2 powi (e - ?E)" by (simp flip: power_int_add)
  also have "(2::real) powi (e - ?E) = 2 ^ nat (e - ?E)" using E by (simp add: power_int_nonneg_exp)
  finally have pe: "(2::real) powi e = P * Q" by (simp add: P_def Q_def)
  have "of_int m * (P * Q) / P = of_int m * Q" using P by simp
  then have "of_int m * 2 powi e / P = of_int m * Q" by (simp only: pe)
  then have "?x / 2 powi ?E = of_int (m * 2 ^ nat (e - ?E))" by (simp add: P_def Q_def)
  then show ?thesis by (rule nearestDouble_exact)
qed

lemma nearestDouble_of_int:
  assumes "\<bar>n\<bar> \<le> 2 ^ 53"
  shows "nearestDouble (of_int n) = of_int n"
proof (cases "\<bar>n\<bar> < 2 ^ 53")
  case True
  from nearestDouble_scaled_int [OF True, of 0] show ?thesis by simp
next
  case False
  with assms have "n = 2 ^ 53 \<or> n = - (2 ^ 53)" by linarith
  then have "(of_int n :: real) = of_int (n div 2) * 2 powi 1" and "\<bar>n div 2\<bar> < 2 ^ 53"
    by auto
  with nearestDouble_scaled_int [of "n div 2" 1] show ?thesis by simp
qed

lemma nearestDouble_pow2:
  assumes "- 1074 \<le> k"
  shows "nearestDouble (2 powi k) = 2 powi k"
  using nearestDouble_scaled_int [of 1 k] assms by simp

lemma ulp_le: "x \<noteq> 0 \<Longrightarrow> 2 powi ulpExponent x \<le> \<bar>x\<bar> + 1"
proof -
  assume nz: "x \<noteq> 0"
  show ?thesis
  proof (cases "- 1022 \<le> ilog2 x")
    case True
    then have "ulpExponent x \<le> ilog2 x" by (simp add: ulpExponent_def)
    then have "(2::real) powi ulpExponent x \<le> 2 powi ilog2 x" by (rule pow2_mono)
    with ilog2_bounds(1) [OF nz] show ?thesis by linarith
  next
    case False
    then have "ulpExponent x \<le> 0" by (simp add: ulpExponent_def)
    then have "(2::real) powi ulpExponent x \<le> 2 powi 0" by (rule pow2_mono)
    then show ?thesis by simp
  qed
qed

lemma nearestDouble_abs_bound: "\<bar>nearestDouble x\<bar> \<le> 2 * \<bar>x\<bar> + 1"
proof (cases "x = 0")
  case True
  then show ?thesis by simp
next
  case False
  from nearestDouble_error [of x] ulp_le [OF False] show ?thesis by linarith
qed

lemma toDouble_Fin: "\<bar>nearestDouble x\<bar> < 2 ^ 1024 \<Longrightarrow> toDouble x = Fin (nearestDouble x)"
  by (auto simp: toDouble_def Let_def)

lemma toDouble_small: "\<bar>x\<bar> \<le> 2 ^ 1000 \<Longrightarrow> toDouble x = Fin (nearestDouble x)"
proof (rule toDouble_Fin)
  assume "\<bar>x\<bar> \<le> 2 ^ 1000"
  with nearestDouble_abs_bound [of x] have "\<bar>nearestDouble x\<bar> \<le> 2 * 2 ^ 1000 + 1" by linarith
  also have "\<dots> < (2::real) ^ 1024" by simp
  finally show "\<bar>nearestDouble x\<bar> < 2 ^ 1024" .
qed

lemma toDouble_of_int: "\<bar>n\<bar> \<le> 2 ^ 53 \<Longrightarrow> toDouble (of_int n) = Fin (of_int n)"
proof -
  assume n: "\<bar>n\<bar> \<le> 2 ^ 53"
  then have "(of_int \<bar>n\<bar> :: real) \<le> of_int (2 ^ 53)" by (simp only: of_int_le_iff)
  then have "\<bar>of_int n :: real\<bar> \<le> 2 ^ 1000" by simp
  then show ?thesis by (simp add: toDouble_small nearestDouble_of_int [OF n])
qed

lemma ulpExponent_eval:
  assumes "2 powi k \<le> \<bar>x\<bar>" and "\<bar>x\<bar> < 2 powi (k + 1)"
  shows "ulpExponent x = max k (- 1022) - 52"
  using ilog2_unique [OF assms] by (simp add: ulpExponent_def)

lemma ulpExponent_subnormal:
  assumes "x \<noteq> 0" and "\<bar>x\<bar> < 2 powi (- 1022)"
  shows "ulpExponent x = - 1074"
proof -
  have "(2::real) powi ilog2 x < 2 powi (- 1022)"
    using ilog2_bounds(1) [OF assms(1)] assms(2) by linarith
  then have "ilog2 x < - 1022" by (rule pow2_less_imp_less)
  then show ?thesis by (simp add: ulpExponent_def)
qed


lemma isDouble_scaled_int:
  assumes "\<bar>m\<bar> < 2 ^ 53" and "- 1074 \<le> e" and "e \<le> 900"
  shows "isDouble (of_int m * 2 powi e)"
proof -
  have "(of_int \<bar>m\<bar> :: real) < of_int (2 ^ 53)" using assms(1) by (simp only: of_int_less_iff)
  then have m: "\<bar>of_int m :: real\<bar> < 2 ^ 53" by simp
  have "(2::real) powi e \<le> 2 powi 900" using assms(3) by (rule pow2_mono)
  then have e: "(2::real) powi e \<le> 2 ^ 900" by simp
  have "\<bar>of_int m * (2::real) powi e\<bar> = \<bar>of_int m\<bar> * 2 powi e" by (simp add: abs_mult)
  also have "\<dots> \<le> 2 ^ 53 * 2 ^ 900" using m e by (intro mult_mono) simp_all
  also have "\<dots> < (2::real) ^ 1024" by simp
  finally show ?thesis
    using nearestDouble_scaled_int [OF assms(1,2)] by (simp add: isDouble_def)
qed

lemma isDouble_of_int: "\<bar>n\<bar> \<le> 2 ^ 53 \<Longrightarrow> isDouble (of_int n)"
proof -
  assume n: "\<bar>n\<bar> \<le> 2 ^ 53"
  then have "(of_int \<bar>n\<bar> :: real) \<le> of_int (2 ^ 53)" by (simp only: of_int_le_iff)
  then have "\<bar>of_int n :: real\<bar> < 2 ^ 1024" by simp
  with nearestDouble_of_int [OF n] show ?thesis by (simp add: isDouble_def)
qed

lemma toDouble_isDouble: "isDouble x \<Longrightarrow> toDouble x = Fin x"
  by (simp add: isDouble_def toDouble_Fin)

lemma toDouble_zero [simp]: "toDouble 0 = Fin 0"
  using toDouble_of_int [of 0] by simp

lemma toDouble_one [simp]: "toDouble 1 = Fin 1"
  using toDouble_of_int [of 1] by simp


section \<open>Properties of the day-span calculator\<close>

lemma getTime_valid: "\<bar>t\<bar> \<le> 8640000000000000 \<Longrightarrow> getTime (TimeValue t) = Fin (of_int t)"
  by simp

lemma isValidDate_TimeValue:
  assumes "isValidDate d"
  obtains t where "d = TimeValue t" and "\<bar>t\<bar> \<le> 8640000000000000"
  using assms by (cases d) auto

lemma calculateDaysBetween_valid:
  assumes s: "\<bar>s\<bar> \<le> 8640000000000000" and e: "\<bar>e\<bar> \<le> 8640000000000000"
  shows "calculateDaysBetween (TimeValue s) (TimeValue e) = Fin (of_int (roundedDays s e + 1))"
proof -
  define d where "d = nearestDouble (of_int (e - s))"
  define q where "q = nearestDouble (d / 86400000)"
  from s e have "\<bar>e - s\<bar> \<le> 17280000000000000" by linarith
  then have "(of_int \<bar>e - s\<bar> :: real) \<le> of_int 17280000000000000" by (simp only: of_int_le_iff)
  then have b1: "\<bar>of_int (e - s) :: real\<bar> \<le> 17280000000000000" by simp
  then have "\<bar>of_int (e - s) :: real\<bar> \<le> 2 ^ 1000" by simp
  then have "toDouble (of_int (e - s)) = Fin d" unfolding d_def by (rule toDouble_small)
  then have sub: "toDouble (of_int e - of_int s) = Fin d" by simp
  have b2: "\<bar>d\<bar> \<le> 34560000000000001"
  proof -
    have "\<bar>d\<bar> \<le> 2 * \<bar>of_int (e - s) :: real\<bar> + 1"
      unfolding d_def by (rule nearestDouble_abs_bound)
    also have "\<dots> \<le> 2 * 17280000000000000 + 1"
      using b1 by (intro add_mono mult_left_mono) simp_all
    finally show ?thesis by simp
  qed
  then have b3: "\<bar>d / 86400000\<bar> \<le> 400000001" by simp
  then have "\<bar>d / 86400000\<bar> \<le> 2 ^ 1000" by simp
  then have quot: "toDouble (d / 86400000) = Fin q" unfolding q_def by (rule toDouble_small)
  have b4: "\<bar>q\<bar> \<le> 800000003"
  proof -
    have "\<bar>q\<bar> \<le> 2 * \<bar>d / 86400000\<bar> + 1" unfolding q_def by (rule nearestDouble_abs_bound)
    also have "\<dots> \<le> 2 * 400000001 + 1"
      using b3 by (intro add_mono mult_left_mono) simp_all
    finally show ?thesis by simp
  qed
  then have "- 800000003 \<le> q" and "q \<le> 800000003" by (simp_all add: abs_le_iff)
  then have "- 800000003 \<le> \<lceil>q\<rceil> \<and> \<lceil>q\<rceil> \<le> 800000003" by linarith
  then have "\<bar>\<lceil>q\<rceil> + 1\<bar> \<le> 9007199254740992" by linarith
  then have "\<bar>\<lceil>q\<rceil> + 1\<bar> \<le> 2 ^ 53" by simp
  then have "toDouble (of_int (\<lceil>q\<rceil> + 1)) = Fin (of_int (\<lceil>q\<rceil> + 1))"
    by (rule toDouble_of_int)
  then have plus: "toDouble (of_int \<lceil>q\<rceil> + 1) = Fin (of_int \<lceil>q\<rceil> + 1)" by simp
  have "calculateDaysBetween (TimeValue s) (TimeValue e) =
      jadd (Math_ceil (jdiv (Fin d) (Fin 86400000))) (Fin 1)"
    using s e by (simp add: calculateDaysBetween_def jsub_def sub)
  also have "\<dots> = jadd (Math_ceil (Fin q)) (Fin 1)" by (simp add: quot)
  also have "\<dots> = Fin (of_int \<lceil>q\<rceil> + 1)" by (simp add: plus)
  finally show ?thesis by (simp add: roundedDays_def q_def d_def)
qed

lemma roundedDays_nonneg: "s \<le> e \<Longrightarrow> 0 \<le> roundedDays s e"
proof -
  assume "s \<le> e"
  then have "(0::real) \<le> of_int (e - s)" by simp
  then have "0 \<le> nearestDouble (of_int (e - s)) / 86400000"
    using nearestDouble_nonneg by simp
  then have "0 \<le> nearestDouble (nearestDouble (of_int (e - s)) / 86400000)"
    by (rule nearestDouble_nonneg)
  then show ?thesis unfolding roundedDays_def by linarith
qed

lemma roundedDays_pos: "s < e \<Longrightarrow> 1 \<le> roundedDays s e"
proof -
  assume "s < e"
  then have "(1::real) \<le> of_int (e - s)" by simp
  with nearestDouble_mono [of 1 "of_int (e - s)"] nearestDouble_of_int [of 1]
  have "1 \<le> nearestDouble (of_int (e - s))" by simp
  then have "2 powi (- 27) \<le> nearestDouble (of_int (e - s)) / 86400000" by simp
  with nearestDouble_mono [of "2 powi (- 27)" "nearestDouble (of_int (e - s)) / 86400000"]
    nearestDouble_pow2 [of "- 27"]
  have "2 powi (- 27) \<le> nearestDouble (nearestDouble (of_int (e - s)) / 86400000)" by simp
  then have "0 < nearestDouble (nearestDouble (of_int (e - s)) / 86400000)" by simp
  then show ?thesis unfolding roundedDays_def by linarith
qed

lemma roundedDays_mono:
  assumes "s \<le> v" and "v \<le> e"
  shows "roundedDays s v \<le> roundedDays s e"
proof -
  have "nearestDouble (of_int (v - s)) \<le> nearestDouble (of_int (e - s))"
    using assms by (intro nearestDouble_mono) simp_all
  moreover have "0 \<le> nearestDouble (of_int (v - s))"
    using assms(1) by (intro nearestDouble_nonneg) simp
  ultimately have "nearestDouble (nearestDouble (of_int (v - s)) / 86400000) \<le>
      nearestDouble (nearestDouble (of_int (e - s)) / 86400000)"
    by (intro nearestDouble_mono) (simp_all add: divide_right_mono)
  then show ?thesis unfolding roundedDays_def by (rule ceiling_mono)
qed

lemma roundedDays_same [simp]: "roundedDays s s = 0"
  by (simp add: roundedDays_def)

lemma nearestDouble_day_quotient:
  fixes d :: int
  assumes d: "\<bar>d\<bar> \<le> 2 ^ 53"
  shows "\<lceil>nearestDouble (of_int d / 86400000)\<rceil> = \<lceil>of_int d / (86400000::real)\<rceil>"
proof (cases "d mod 86400000 = 0")
  case True
  then obtain k where k: "d = 86400000 * k" by (auto simp: mod_eq_0_iff_dvd)
  with d have "\<bar>k\<bar> \<le> 2 ^ 53" by simp
  moreover have "of_int d / (86400000::real) = of_int k" using k by simp
  ultimately show ?thesis by (simp add: nearestDouble_of_int)
next
  case False
  let ?x = "of_int d / (86400000::real)"
  let ?f = "d div 86400000"
  let ?r = "d mod 86400000"
  have r: "1 \<le> ?r" "?r \<le> 86399999"
    using False pos_mod_bound [of 86400000 d] pos_mod_sign [of 86400000 d] by simp_all
  have "d = 86400000 * ?f + ?r" by simp
  then have "(of_int d :: real) = 86400000 * of_int ?f + of_int ?r"
    by (metis of_int_add of_int_mult of_int_numeral)
  then have x: "?x = of_int ?f + of_int ?r / 86400000" by (simp add: field_simps)
  have rr: "(1::real) \<le> of_int ?r" "(of_int ?r :: real) \<le> 86399999"
    using r by simp_all
  have lo: "of_int ?f + 1 / 86400000 \<le> ?x" unfolding x using rr(1) by (simp add: field_simps)
  have hi: "?x \<le> of_int ?f + 1 - 1 / 86400000" unfolding x using rr(2) by (simp add: field_simps)
  have "?x \<noteq> 0" using False by auto
  have "(of_int \<bar>d\<bar> :: real) \<le> of_int (2 ^ 53)" using d by (simp only: of_int_le_iff)
  then have "\<bar>of_int d :: real\<bar> \<le> 2 ^ 53" by simp
  then have "\<bar>?x\<bar> < 2 powi 27" by simp
  then have "(2::real) powi ilog2 ?x < 2 powi 27"
    using ilog2_bounds(1) [OF \<open>?x \<noteq> 0\<close>] by linarith
  then have "ilog2 ?x < 27" by (rule pow2_less_imp_less)
  then have "ulpExponent ?x \<le> - 26" by (simp add: ulpExponent_def)
  then have "(2::real) powi ulpExponent ?x \<le> 2 powi (- 26)" by (rule pow2_mono)
  with nearestDouble_error [of ?x]
  have err: "\<bar>nearestDouble ?x - ?x\<bar> \<le> 1 / 134217728" by simp
  from err have e1: "?x - 1 / 134217728 \<le> nearestDouble ?x"
    and e2: "nearestDouble ?x \<le> ?x + 1 / 134217728"
    unfolding abs_diff_le_iff by simp_all
  have c: "(1::real) / 134217728 < 1 / 86400000" by simp
  have "of_int ?f < nearestDouble ?x" using lo e1 c by linarith
  moreover have "nearestDouble ?x < of_int ?f + 1" using hi e2 c by linarith
  ultimately have A: "\<lceil>nearestDouble ?x\<rceil> = ?f + 1" by linarith
  have "of_int ?f < ?x" using lo by simp
  moreover have "?x < of_int ?f + 1" using hi by simp
  ultimately have B: "\<lceil>?x\<rceil> = ?f + 1" by linarith
  from A B show ?thesis by simp
qed

lemma roundedDays_exact:
  assumes "\<bar>e - s\<bar> \<le> 2 ^ 53"
  shows "roundedDays s e = \<lceil>of_int (e - s) / (86400000::real)\<rceil>"
  unfolding roundedDays_def nearestDouble_of_int [OF assms]
  using assms by (rule nearestDouble_day_quotient)

lemma ceiling_time_of_day:
  fixes a b :: int
  assumes "0 \<le> a" "a < 86400000" "0 \<le> b" "b < 86400000"
  shows "\<lceil>of_int (b - a) / (86400000::real)\<rceil> = (if b \<le> a then 0 else 1)"
proof (cases "b \<le> a")
  case True
  have "of_int (0::int) - 1 < of_int (b - a) / (86400000::real)"
    using assms by simp
  moreover have "of_int (b - a) / (86400000::real) \<le> of_int (0::int)"
    using True by simp
  ultimately have "\<lceil>of_int (b - a) / (86400000::real)\<rceil> = 0" by (rule ceiling_unique)
  with True show ?thesis by simp
next
  case False
  have "of_int (1::int) - 1 < of_int (b - a) / (86400000::real)"
    using False by simp
  moreover have "of_int (b - a) / (86400000::real) \<le> of_int (1::int)"
    using assms by simp
  ultimately have "\<lceil>of_int (b - a) / (86400000::real)\<rceil> = 1" by (rule ceiling_unique)
  with False show ?thesis by simp
qed

lemma ceiling_days_split:
  "\<lceil>of_int (e - s) / (86400000::real)\<rceil> =
     calendarDay e - calendarDay s + (if e mod 86400000 \<le> s mod 86400000 then 0 else 1)"
proof -
  let ?D = "86400000::int"
  have e: "e = ?D * (e div ?D) + e mod ?D" by simp
  have s: "s = ?D * (s div ?D) + s mod ?D" by simp
  have "e - s = ?D * (e div ?D - s div ?D) + (e mod ?D - s mod ?D)"
    by (simp add: algebra_simps)
  then have "(of_int (e - s) :: real) =
      of_int ?D * of_int (e div ?D - s div ?D) + of_int (e mod ?D - s mod ?D)"
    by (metis of_int_add of_int_mult)
  then have "of_int (e - s) / (86400000::real) =
      of_int (e mod ?D - s mod ?D) / 86400000 + of_int (e div ?D - s div ?D)"
    by (simp add: field_simps)
  then have "\<lceil>of_int (e - s) / (86400000::real)\<rceil> =
      \<lceil>of_int (e mod ?D - s mod ?D) / (86400000::real)\<rceil> + (e div ?D - s div ?D)"
    by (simp only: ceiling_add_of_int)
  moreover have "\<lceil>of_int (e mod ?D - s mod ?D) / (86400000::real)\<rceil> =
      (if e mod ?D \<le> s mod ?D then 0 else 1)"
    by (rule ceiling_time_of_day) simp_all
  ultimately show ?thesis by (simp add: calendarDay_def)
qed


lemma calculateDaysBetween_exact:
  assumes "\<bar>s\<bar> \<le> 8640000000000000" and "\<bar>e\<bar> \<le> 8640000000000000"
    and "\<bar>e - s\<bar> \<le> 9007199254740992"
  shows "calculateDaysBetween (TimeValue s) (TimeValue e) =
     Fin (of_int (\<lceil>of_int (e - s) / (86400000::real)\<rceil> + 1))"
proof -
  from assms(3) have "\<bar>e - s\<bar> \<le> 2 ^ 53" by simp
  then have "roundedDays s e = \<lceil>of_int (e - s) / (86400000::real)\<rceil>" by (rule roundedDays_exact)
  with calculateDaysBetween_valid [OF assms(1,2)] show ?thesis by simp
qed

text \<open>
  Claim C4, as stated, fails for dates more than \<open>2 ^ 53\<close> ms apart: the subtraction of
  the time values is rounded. From \<open>- 6480000000000000\<close> to \<open>6480000000000001\<close> the
  difference \<open>12960000000000001\<close> is rounded to \<open>12960000000000000\<close>, which is
  150000000 days exactly, and the count is 150000001 where the ceiling of the true
  quotient plus one is 150000002.
\<close>

theorem calculateDaysBetween_rounded_difference:
  "calculateDaysBetween (TimeValue (- 6480000000000000)) (TimeValue 6480000000000001) =
     Fin 150000001 \<and>
   \<lceil>of_int (6480000000000001 - (- 6480000000000000)) / (86400000::real)\<rceil> + 1 =
     (150000002::int)"
proof -
  have E: "ulpExponent 12960000000000001 = 1"
    by (rule ulpExponent_eval [where k = 53, simplified]) simp_all
  have d: "nearestDouble 12960000000000001 = 12960000000000000"
    by (simp add: nearestDouble_def E roundHalfEven_def Let_def)
  have "nearestDouble (of_int 150000000) = of_int 150000000"
    by (rule nearestDouble_of_int) simp
  then have q: "nearestDouble 150000000 = 150000000" by simp
  have "roundedDays (- 6480000000000000) 6480000000000001 = 150000000"
    by (simp add: roundedDays_def d q)
  with calculateDaysBetween_valid [of "- 6480000000000000" 6480000000000001]
  have "calculateDaysBetween (TimeValue (- 6480000000000000)) (TimeValue 6480000000000001) =
      Fin 150000001"
    by simp
  then show ?thesis by simp
qed

text \<open>
  Claim C4, amended. For two valid dates at most \<open>2 ^ 53\<close> ms (about 285000 years)
  apart, \<open>calculateDaysBetween\<close> returns the inclusive day count: the ceiling of the
  difference in days (a day is 86400000 ms), plus one. For every valid date, the count
  from the date to itself is 1, and for all valid dates the count is at least 1 whenever
  the end is not before the start.
\<close>

theorem calculateDaysBetween_inclusive:
  "(isValidDate (TimeValue s) \<and> isValidDate (TimeValue e) \<and> \<bar>e - s\<bar> \<le> 9007199254740992 \<longrightarrow>
      calculateDaysBetween (TimeValue s) (TimeValue e) =
        Fin (of_int (\<lceil>of_int (e - s) / (86400000::real)\<rceil> + 1))) \<and>
   (isValidDate (TimeValue d) \<longrightarrow>
      calculateDaysBetween (TimeValue d) (TimeValue d) = Fin 1) \<and>
   (isValidDate (TimeValue s) \<and> isValidDate (TimeValue e) \<and> s \<le> e \<longrightarrow>
      jle (Fin 1) (calculateDaysBetween (TimeValue s) (TimeValue e)))"
proof -
  have count: "calculateDaysBetween (TimeValue s) (TimeValue e) =
      Fin (of_int (\<lceil>of_int (e - s) / (86400000::real)\<rceil> + 1))"
    if "isValidDate (TimeValue s)" "isValidDate (TimeValue e)" "\<bar>e - s\<bar> \<le> 9007199254740992"
    using that by (intro calculateDaysBetween_exact) simp_all
  have same: "calculateDaysBetween (TimeValue d) (TimeValue d) = Fin 1"
    if "isValidDate (TimeValue d)"
    using that calculateDaysBetween_valid [of d d] by simp
  have least: "jle (Fin 1) (calculateDaysBetween (TimeValue s) (TimeValue e))"
    if "isValidDate (TimeValue s)" "isValidDate (TimeValue e)" "s \<le> e"
  proof -
    from that have "calculateDaysBetween (TimeValue s) (TimeValue e) =
        Fin (of_int (roundedDays s e + 1))"
      by (intro calculateDaysBetween_valid) simp_all
    moreover have "(1::real) \<le> of_int (roundedDays s e + 1)"
      using roundedDays_nonneg [OF that(3)] by linarith
    ultimately show ?thesis by (simp only: jle.simps)
  qed
  from count same least show ?thesis by blast
qed

theorem calculateDaysBetween_inclusive_witness:
  "isValidDate (TimeValue 1704067200000) \<and> isValidDate (TimeValue 1706659200000) \<and>
   \<bar>1706659200000 - 1704067200000 :: int\<bar> \<le> 9007199254740992 \<and>
   (1704067200000::int) \<le> 1706659200000 \<and>
   calculateDaysBetween (TimeValue 1704067200000) (TimeValue 1706659200000) = Fin 31 \<and>
   calculateDaysBetween (TimeValue 1706659200000) (TimeValue 1706659200000) = Fin 1 \<and>
   jle (Fin 1) (calculateDaysBetween (TimeValue 1704067200000) (TimeValue 1706659200000))"
  using calculateDaysBetween_inclusive
    [where s = 1704067200000 and e = 1706659200000 and d = 1706659200000]
  by simp

text \<open>
  Claim C8, as stated, fails: midnight and noon of 2 January 2024 (UTC) are on the same
  calendar day, and counted from midnight of 1 January they give 2 and 3 days.
\<close>

theorem calculateDaysBetween_not_normalized:
  "calendarDay 1704153600000 = calendarDay 1704196800000 \<and>
   calculateDaysBetween (TimeValue 1704067200000) (TimeValue 1704153600000) = Fin 2 \<and>
   calculateDaysBetween (TimeValue 1704067200000) (TimeValue 1704196800000) = Fin 3"
  by (simp add: calendarDay_def calculateDaysBetween_exact)

text \<open>
  Claim C8, amended. \<open>calculateDaysBetween\<close> subtracts the time values as they are;
  nothing is moved to midnight. For two valid dates at most \<open>2 ^ 53\<close> ms apart, the
  result is the number of calendar days from the start to the end plus one when the
  end's time of day is not later than the start's (so in particular when both are at
  midnight), and plus two when it is later.
\<close>

theorem calculateDaysBetween_time_of_day:
  assumes "isValidDate (TimeValue s)" and "isValidDate (TimeValue e)"
    and "\<bar>e - s\<bar> \<le> 9007199254740992"
  shows "calculateDaysBetween (TimeValue s) (TimeValue e) =
     Fin (of_int (calendarDay e - calendarDay s +
            (if e mod 86400000 \<le> s mod 86400000 then 1 else 2)))"
proof -
  have "\<lceil>of_int (e - s) / (86400000::real)\<rceil> + 1 =
      calendarDay e - calendarDay s + (if e mod 86400000 \<le> s mod 86400000 then 1 else 2)"
    unfolding ceiling_days_split by simp
  moreover have "calculateDaysBetween (TimeValue s) (TimeValue e) =
      Fin (of_int (\<lceil>of_int (e - s) / (86400000::real)\<rceil> + 1))"
    using assms by (intro calculateDaysBetween_exact) simp_all
  ultimately show ?thesis by (simp only:)
qed

theorem calculateDaysBetween_time_of_day_witness:
  "isValidDate (TimeValue 1704067200000) \<and> isValidDate (TimeValue 1704196800000) \<and>
   \<bar>1704196800000 - 1704067200000 :: int\<bar> \<le> 9007199254740992 \<and>
   calculateDaysBetween (TimeValue 1704067200000) (TimeValue 1704153600000) = Fin 2 \<and>
   calculateDaysBetween (TimeValue 1704067200000) (TimeValue 1704196800000) = Fin 3 \<and>
   calculateDaysBetween (TimeValue 1704110400000) (TimeValue 1704153600000) = Fin 2"
  using calculateDaysBetween_time_of_day [where s = 1704067200000 and e = 1704153600000]
    calculateDaysBetween_time_of_day [where s = 1704067200000 and e = 1704196800000]
    calculateDaysBetween_time_of_day [where s = 1704110400000 and e = 1704153600000]
  by (simp add: calendarDay_def)

section \<open>Validation in the outage-credit mode\<close>

lemma validateServices_None_iff:
  "validateServices P svcs = None \<longleftrightarrow>
     (\<forall>s\<in>set svcs. \<not> missingRequiredField s \<and> \<not> jle (pricePaid s) (Fin 0) \<and>
        \<not> jle (getTime (P (invoiceEndDate s))) (getTime (P (invoiceStartDate s))))"
  by (induction svcs) (auto simp: missingRequiredField_def jge_def Let_def)

lemma creditLoop_Inl_iff:
  "(\<exists>a. creditLoop P r svcs acc = Inl a) \<longleftrightarrow>
     (\<exists>s\<in>set svcs.
        jlt (getTime (P (actualServiceStartDate s))) (getTime (P (invoiceStartDate s))) \<or>
        jgt (getTime (P (actualServiceStartDate s))) (getTime (P (invoiceEndDate s))))"
proof (induction svcs arbitrary: acc)
  case Nil
  then show ?case by simp
next
  case (Cons s svcs)
  obtain cs tc tt where acc: "acc = (cs, tc, tt)" by (cases acc) auto
  show ?case unfolding acc using Cons.IH by (simp add: Let_def)
qed

lemma failsCheck_split:
  "failsCheck P s \<longleftrightarrow>
     (missingRequiredField s \<or> jle (pricePaid s) (Fin 0) \<or>
      jle (getTime (P (invoiceEndDate s))) (getTime (P (invoiceStartDate s)))) \<or>
     (jlt (getTime (P (actualServiceStartDate s))) (getTime (P (invoiceStartDate s))) \<or>
      jgt (getTime (P (actualServiceStartDate s))) (getTime (P (invoiceEndDate s))))"
  by (auto simp: failsCheck_def)

lemma calculateCredit_Inl_iff:
  "(\<exists>a. calculateCredit P r svcs = Inl a) \<longleftrightarrow> (svcs = [] \<or> someFailsCheck P svcs)"
proof (cases "svcs = []")
  case True
  then show ?thesis by (simp add: calculateCredit_def)
next
  case False
  show ?thesis
  proof (cases "validateServices P svcs")
    case (Some a)
    then have "validateServices P svcs \<noteq> None" by simp
    then have "\<exists>s\<in>set svcs. failsCheck P s"
      unfolding validateServices_None_iff failsCheck_split by blast
    with False Some show ?thesis
      by (simp add: calculateCredit_def someFailsCheck_def list_ex_iff)
  next
    case None
    then have ok: "\<forall>s\<in>set svcs. \<not> (missingRequiredField s \<or> jle (pricePaid s) (Fin 0) \<or>
        jle (getTime (P (invoiceEndDate s))) (getTime (P (invoiceStartDate s))))"
      unfolding validateServices_None_iff by blast
    have "(\<exists>a. calculateCredit P r svcs = Inl a) \<longleftrightarrow>
        (\<exists>a. creditLoop P r svcs ([], Fin 0, Fin 0) = Inl a)"
      using False None by (auto simp: calculateCredit_def split: sum.splits)
    also have "\<dots> \<longleftrightarrow> (\<exists>s\<in>set svcs. failsCheck P s)"
      unfolding creditLoop_Inl_iff failsCheck_split using ok by blast
    finally show ?thesis using False by (simp add: someFailsCheck_def list_ex_iff)
  qed
qed

lemma calculateCredit_Inr_passes:
  assumes "calculateCredit P r svcs = Inr res" and "s \<in> set svcs"
  shows "\<not> failsCheck P s"
proof -
  from assms(1) have "\<not> (\<exists>a. calculateCredit P r svcs = Inl a)" by simp
  then have "\<not> someFailsCheck P svcs" unfolding calculateCredit_Inl_iff by simp
  with assms(2) show ?thesis by (auto simp: someFailsCheck_def list_ex_iff)
qed

text \<open>
  The single-service version refuses under the same conditions on its four inputs
  (it has no name field and no list).
\<close>

lemma calculateCreditSingle_Inl_iff:
  "(\<exists>a. calculateCreditSingle P s e p v r = Inl a) \<longleftrightarrow>
     (s = [] \<or> e = [] \<or> v = [] \<or> jle p (Fin 0) \<or>
      jle (getTime (P e)) (getTime (P s)) \<or>
      jlt (getTime (P v)) (getTime (P s)) \<or>
      jgt (getTime (P v)) (getTime (P e)))"
  by (auto simp: calculateCreditSingle_def Let_def jge_def)

text \<open>
  Claim C1, as stated, at the empty list of services: no service fails a check, and
  \<open>calculateCredit\<close> still refuses, with the alert that asks for at least one service.
\<close>

theorem calculateCredit_empty_list_refused:
  "\<not> someFailsCheck exampleDate [] \<and>
   calculateCredit exampleDate (Fin 13) [] = Inl AddAtLeastOneService"
  by (simp add: someFailsCheck_def calculateCredit_def)

text \<open>
  Claim C1, amended. \<open>calculateCredit\<close> refuses (an alert, and no result) if and only
  if the list of services is empty or some service has an empty name or date field, a
  price that is not positive, a billing period whose end is not after its start, or a
  service start before the start or after the end of the billing period. It returns a
  result if and only if the list is not empty and every service passes the five checks.
\<close>

theorem calculateCredit_refused_iff:
  "((\<exists>a. calculateCredit P r svcs = Inl a) \<longleftrightarrow> (svcs = [] \<or> someFailsCheck P svcs)) \<and>
   ((\<exists>res. calculateCredit P r svcs = Inr res) \<longleftrightarrow> (svcs \<noteq> [] \<and> \<not> someFailsCheck P svcs))"
proof -
  have refused: "(\<exists>a. calculateCredit P r svcs = Inl a) \<longleftrightarrow> (svcs = [] \<or> someFailsCheck P svcs)"
    by (rule calculateCredit_Inl_iff)
  have "(\<exists>res. calculateCredit P r svcs = Inr res) \<longleftrightarrow> \<not> (\<exists>a. calculateCredit P r svcs = Inl a)"
    by (cases "calculateCredit P r svcs") auto
  with refused show ?thesis by blast
qed

theorem calculateCredit_refused_iff_witness:
  "[exampleService] \<noteq> [] \<and> \<not> someFailsCheck exampleDate [exampleService] \<and>
   (\<exists>res. calculateCredit exampleDate (Fin 13) [exampleService] = Inr res) \<and>
   someFailsCheck exampleDate [exampleService\<lparr>pricePaid := Fin 0\<rparr>] \<and>
   (\<exists>a. calculateCredit exampleDate (Fin 13) [exampleService\<lparr>pricePaid := Fin 0\<rparr>] = Inl a)"
  using calculateCredit_refused_iff [of exampleDate "Fin 13" "[exampleService]"]
    calculateCredit_refused_iff [of exampleDate "Fin 13" "[exampleService\<lparr>pricePaid := Fin 0\<rparr>]"]
  by (simp add: someFailsCheck_def failsCheck_def missingRequiredField_def exampleService_def
      exampleDate_def jgt_def)




section \<open>The calculation of one service\<close>

lemma creditLoop_Inr:
  "creditLoop P r svcs (cs, tc, tt) = Inr (cs', tc', tt') \<Longrightarrow>
     cs' = cs @ map (serviceCalculation P r) svcs \<and>
     tc' = foldl jadd tc (map creditAmount (map (serviceCalculation P r) svcs)) \<and>
     tt' = foldl jadd tt (map taxOnCredit (map (serviceCalculation P r) svcs))"
proof (induction svcs arbitrary: cs tc tt)
  case Nil
  then show ?case by simp
next
  case (Cons s svcs)
  let ?c = "serviceCalculation P r s"
  from Cons.prems have "creditLoop P r svcs
      (cs @ [?c], jadd tc (creditAmount ?c), jadd tt (taxOnCredit ?c)) = Inr (cs', tc', tt')"
    by (simp add: Let_def split: if_splits)
  from Cons.IH [OF this] show ?case by simp
qed

lemma calculateCredit_Inr:
  assumes "calculateCredit P r svcs = Inr res"
  shows "services res = map (serviceCalculation P r) svcs"
    and "totalCreditAmount res = sumNumbers (map creditAmount (services res))"
    and "totalTaxOnCredit res = sumNumbers (map taxOnCredit (services res))"
    and "grandTotalWithTax res = jadd (totalCreditAmount res) (totalTaxOnCredit res)"
proof -
  from assms obtain cs tc tt where
    loop: "creditLoop P r svcs ([], Fin 0, Fin 0) = Inr (cs, tc, tt)" and
    res: "res = \<lparr> services = cs, totalCreditAmount = tc, totalTaxOnCredit = tt,
                 grandTotalWithTax = jadd tc tt \<rparr>"
    by (auto simp: calculateCredit_def split: if_splits option.splits sum.splits)
  from creditLoop_Inr [OF loop] res
  show "services res = map (serviceCalculation P r) svcs"
    and "totalCreditAmount res = sumNumbers (map creditAmount (services res))"
    and "totalTaxOnCredit res = sumNumbers (map taxOnCredit (services res))"
    and "grandTotalWithTax res = jadd (totalCreditAmount res) (totalTaxOnCredit res)"
    by (simp_all add: sumNumbers_def)
qed

lemma calculateCredit_nth:
  assumes "calculateCredit P r svcs = Inr res" and "i < length svcs"
  shows "services res ! i = serviceCalculation P r (svcs ! i)"
    and "\<not> failsCheck P (svcs ! i)"
proof -
  show "services res ! i = serviceCalculation P r (svcs ! i)"
    using assms by (simp add: calculateCredit_Inr(1))
  from assms(2) have "svcs ! i \<in> set svcs" by simp
  with assms(1) show "\<not> failsCheck P (svcs ! i)" by (rule calculateCredit_Inr_passes)
qed

lemma serviceCalculation_relations:
  "dailyRate (serviceCalculation P r s) =
     jdiv (pricePaid s) (totalBillingDays (serviceCalculation P r s))"
  "creditAmount (serviceCalculation P r s) =
     jmul (dailyRate (serviceCalculation P r s)) (daysWithoutService (serviceCalculation P r s))"
  "taxOnCredit (serviceCalculation P r s) =
     jmul (creditAmount (serviceCalculation P r s)) (jdiv r (Fin 100))"
  "totalCreditWithTax (serviceCalculation P r s) =
     jadd (creditAmount (serviceCalculation P r s)) (taxOnCredit (serviceCalculation P r s))"
  "daysWithoutService (serviceCalculation P r s) =
     Math_max (Fin 0) (jsub (calculateDaysBetween (P (invoiceStartDate s))
        (P (actualServiceStartDate s))) (Fin 1))"
  "totalBillingDays (serviceCalculation P r s) =
     calculateDaysBetween (P (invoiceStartDate s)) (P (invoiceEndDate s))"
  "calc_id (serviceCalculation P r s) = item_id s"
  "calc_serviceName (serviceCalculation P r s) = serviceName s"
  by (simp_all add: serviceCalculation_def Let_def)


lemma roundedDays_bound:
  assumes s: "\<bar>s\<bar> \<le> 8640000000000000" and e: "\<bar>e\<bar> \<le> 8640000000000000"
  shows "\<bar>roundedDays s e\<bar> \<le> 800000003"
proof -
  define d where "d = nearestDouble (of_int (e - s))"
  define q where "q = nearestDouble (d / 86400000)"
  from s e have "\<bar>e - s\<bar> \<le> 17280000000000000" by linarith
  then have "(of_int \<bar>e - s\<bar> :: real) \<le> of_int 17280000000000000" by (simp only: of_int_le_iff)
  then have b1: "\<bar>of_int (e - s) :: real\<bar> \<le> 17280000000000000" by simp
  have b2: "\<bar>d\<bar> \<le> 34560000000000001"
  proof -
    have "\<bar>d\<bar> \<le> 2 * \<bar>of_int (e - s) :: real\<bar> + 1"
      unfolding d_def by (rule nearestDouble_abs_bound)
    also have "\<dots> \<le> 2 * 17280000000000000 + 1"
      using b1 by (intro add_mono mult_left_mono) simp_all
    finally show ?thesis by simp
  qed
  then have b3: "\<bar>d / 86400000\<bar> \<le> 400000001" by simp
  have b4: "\<bar>q\<bar> \<le> 800000003"
  proof -
    have "\<bar>q\<bar> \<le> 2 * \<bar>d / 86400000\<bar> + 1" unfolding q_def by (rule nearestDouble_abs_bound)
    also have "\<dots> \<le> 2 * 400000001 + 1"
      using b3 by (intro add_mono mult_left_mono) simp_all
    finally show ?thesis by simp
  qed
  then have "- 800000003 \<le> q" and "q \<le> 800000003" by (simp_all add: abs_le_iff)
  then have "- 800000003 \<le> \<lceil>q\<rceil> \<and> \<lceil>q\<rceil> \<le> 800000003" by linarith
  then show ?thesis unfolding roundedDays_def q_def d_def by linarith
qed

lemma getTime_invalid: "\<not> isValidDate d \<Longrightarrow> getTime d = NaN"
  by (cases d) auto

lemma calculateDaysBetween_invalid:
  assumes "\<not> isValidDate a \<or> \<not> isValidDate b"
  shows "calculateDaysBetween a b = NaN"
proof -
  from assms have "getTime a = NaN \<or> getTime b = NaN" by (auto dest: getTime_invalid)
  then have "jsub (getTime b) (getTime a) = NaN"
    by (cases "getTime a"; cases "getTime b") (auto simp: jsub_def)
  then show ?thesis by (simp add: calculateDaysBetween_def)
qed

lemma hasValidDates_TimeValue:
  assumes "hasValidDates P s"
  obtains ts te tv where "P (invoiceStartDate s) = TimeValue ts"
    and "P (invoiceEndDate s) = TimeValue te"
    and "P (actualServiceStartDate s) = TimeValue tv"
    and "\<bar>ts\<bar> \<le> 8640000000000000" and "\<bar>te\<bar> \<le> 8640000000000000"
    and "\<bar>tv\<bar> \<le> 8640000000000000"
proof -
  from assms have v: "isValidDate (P (invoiceStartDate s))" "isValidDate (P (invoiceEndDate s))"
    "isValidDate (P (actualServiceStartDate s))"
    by (simp_all add: hasValidDates_def)
  from v(1) obtain ts where 1: "P (invoiceStartDate s) = TimeValue ts" "\<bar>ts\<bar> \<le> 8640000000000000"
    by (rule isValidDate_TimeValue)
  from v(2) obtain te where 2: "P (invoiceEndDate s) = TimeValue te" "\<bar>te\<bar> \<le> 8640000000000000"
    by (rule isValidDate_TimeValue)
  from v(3) obtain tv where 3: "P (actualServiceStartDate s) = TimeValue tv"
    "\<bar>tv\<bar> \<le> 8640000000000000"
    by (rule isValidDate_TimeValue)
  show ?thesis by (rule that [OF 1(1) 2(1) 3(1) 1(2) 2(2) 3(2)])
qed

lemma Math_max_zero_Fin: "0 \<le> x \<Longrightarrow> Math_max (Fin 0) (Fin x) = Fin x"
  by simp

lemma serviceCalculation_valid:
  assumes ts: "P (invoiceStartDate s) = TimeValue ts"
      and te: "P (invoiceEndDate s) = TimeValue te"
      and tv: "P (actualServiceStartDate s) = TimeValue tv"
      and rs: "\<bar>ts\<bar> \<le> 8640000000000000" and re: "\<bar>te\<bar> \<le> 8640000000000000"
      and rv: "\<bar>tv\<bar> \<le> 8640000000000000"
      and ok: "\<not> failsCheck P s"
  shows "1 \<le> roundedDays ts te"
    and "0 \<le> roundedDays ts tv"
    and "roundedDays ts tv \<le> roundedDays ts te"
    and "roundedDays ts te \<le> 800000003"
    and "totalBillingDays (serviceCalculation P r s) = Fin (of_int (roundedDays ts te + 1))"
    and "daysWithoutService (serviceCalculation P r s) = Fin (of_int (roundedDays ts tv))"
proof -
  let ?k = "roundedDays ts tv"
  from ok ts te tv rs re rv have ord: "ts < te" "ts \<le> tv" "tv \<le> te"
    by (auto simp: failsCheck_def jgt_def)
  show "1 \<le> roundedDays ts te" using ord(1) by (rule roundedDays_pos)
  show k0: "0 \<le> ?k" using ord(2) by (rule roundedDays_nonneg)
  show "?k \<le> roundedDays ts te" using ord(2,3) by (rule roundedDays_mono)
  show "roundedDays ts te \<le> 800000003" using roundedDays_bound [OF rs re] by linarith
  show "totalBillingDays (serviceCalculation P r s) = Fin (of_int (roundedDays ts te + 1))"
    by (simp only: serviceCalculation_relations(6) ts te calculateDaysBetween_valid [OF rs re])
  have "\<bar>?k\<bar> \<le> 2 ^ 53" using roundedDays_bound [OF rs rv] by simp
  then have "toDouble (of_int ?k) = Fin (of_int ?k)" by (rule toDouble_of_int)
  then have "jsub (Fin (of_int (?k + 1))) (Fin 1) = Fin (of_int ?k)"
    by (simp add: jsub_def)
  then have raw: "jsub (calculateDaysBetween (TimeValue ts) (TimeValue tv)) (Fin 1) =
      Fin (of_int ?k)"
    by (simp only: calculateDaysBetween_valid [OF rs rv])
  have "(0::real) \<le> of_int ?k" using k0 by (simp only: of_int_0_le_iff)
  then have mx: "Math_max (Fin 0) (Fin (of_int ?k)) = Fin (of_int ?k)"
    by (rule Math_max_zero_Fin)
  show "daysWithoutService (serviceCalculation P r s) = Fin (of_int ?k)"
    by (simp only: serviceCalculation_relations(5) ts tv raw mx)
qed

lemma jle_NaN [simp]: "\<not> jle NaN y" "\<not> jle x NaN"
  by (cases y; simp) (cases x; simp)

lemma jlt_NaN [simp]: "\<not> jlt NaN y" "\<not> jlt x NaN"
  by (cases y; simp) (cases x; simp)

lemma days_compared_valid:
  assumes "jle (daysWithoutService (serviceCalculation P r s))
               (totalBillingDays (serviceCalculation P r s))"
  shows "hasValidDates P s"
proof (rule ccontr)
  assume "\<not> hasValidDates P s"
  then consider "\<not> isValidDate (P (invoiceStartDate s))"
    | "\<not> isValidDate (P (invoiceEndDate s))"
    | "\<not> isValidDate (P (actualServiceStartDate s))"
    by (auto simp: hasValidDates_def)
  then have "totalBillingDays (serviceCalculation P r s) = NaN \<or>
      daysWithoutService (serviceCalculation P r s) = NaN"
  proof cases
    case 1
    then show ?thesis
      by (simp add: serviceCalculation_relations(6) calculateDaysBetween_invalid)
  next
    case 2
    then show ?thesis
      by (simp add: serviceCalculation_relations(6) calculateDaysBetween_invalid)
  next
    case 3
    then show ?thesis
      by (simp add: serviceCalculation_relations(5) calculateDaysBetween_invalid jsub_def)
  qed
  with assms show False by auto
qed

lemma dailyRate_finite:
  assumes p: "0 < p" "p < 2 ^ 1024" and n: "2 \<le> n"
  shows "toDouble (p / of_int n) = Fin (nearestDouble (p / of_int n))"
    and "0 \<le> nearestDouble (p / of_int n)"
proof -
  have n': "(2::real) \<le> of_int n" using n by simp
  then have "p / of_int n \<le> p / 2" using p(1) by (intro divide_left_mono) simp_all
  also have "\<dots> \<le> 2 ^ 1024 / 2" using p(2) by simp
  also have "\<dots> = (2::real) powi 1023" by simp
  finally have le: "p / of_int n \<le> 2 powi 1023" .
  have ge: "0 \<le> p / of_int n" using p(1) n' by simp
  show nn: "0 \<le> nearestDouble (p / of_int n)" using ge by (rule nearestDouble_nonneg)
  have "nearestDouble (p / of_int n) \<le> nearestDouble (2 powi 1023)"
    using ge le by (rule nearestDouble_mono)
  also have "\<dots> = 2 powi 1023" by (rule nearestDouble_pow2) simp
  also have "\<dots> < (2::real) ^ 1024" by simp
  finally have "\<bar>nearestDouble (p / of_int n)\<bar> < 2 ^ 1024" using nn by simp
  then show "toDouble (p / of_int n) = Fin (nearestDouble (p / of_int n))" by (rule toDouble_Fin)
qed


lemma nearestDouble_relative:
  assumes x: "0 < x" and normal: "2 powi (- 1022) \<le> nearestDouble x"
  shows "nearestDouble x * (1 - 1 / 2 ^ 53) \<le> x"
proof -
  define P where "P = (2::real) powi ulpExponent x"
  define m where "m = roundHalfEven (x / P)"
  have P: "0 < P" by (simp add: P_def)
  have nd: "nearestDouble x = of_int m * P" by (simp add: nearestDouble_def m_def P_def)
  have "2 ^ 52 * P \<le> of_int m * P"
  proof (cases "- 1022 \<le> ilog2 x")
    case True
    from nearestDouble_lower [OF x True] have "2 powi (ulpExponent x + 52) \<le> of_int m * P"
      unfolding nd .
    then show ?thesis by (simp add: pow2_split P_def)
  next
    case False
    then have E: "ulpExponent x = - 1074" by (simp add: ulpExponent_def)
    have "(2::real) ^ 52 * P = 2 powi 52 * 2 powi (- 1074)" by (simp only: P_def E power_int_numeral)
    also have "\<dots> = 2 powi (52 + - 1074)" by (rule pow2_split [symmetric])
    also have "\<dots> = 2 powi (- 1022)" by simp
    finally have eq: "(2::real) ^ 52 * P = 2 powi (- 1022)" .
    from normal show ?thesis unfolding nd by (simp only: eq)
  qed
  then have m: "(2::real) ^ 52 \<le> of_int m" using P by simp
  have "\<bar>of_int m - x / P\<bar> \<le> 1 / 2" unfolding m_def by (rule roundHalfEven_error)
  then have "of_int m - 1 / 2 \<le> x / P" unfolding abs_diff_le_iff by simp
  moreover have "of_int m * (1 - 1 / 2 ^ 53) \<le> of_int m - (1::real) / 2"
    using m by (simp add: algebra_simps)
  ultimately have "of_int m * (1 - 1 / 2 ^ 53) \<le> x / P" by linarith
  then have "of_int m * (1 - 1 / 2 ^ 53) * P \<le> x" using P by (simp add: pos_le_divide_eq)
  then show ?thesis unfolding nd by (simp add: mult.assoc mult.commute mult.left_commute)
qed

lemma isFinite_double:
  assumes "isFinite x"
  obtains p where "x = Fin p" and "nearestDouble p = p" and "\<bar>p\<bar> < 2 ^ 1024"
  using assms by (cases x) (auto simp: isDouble_def)

text \<open>
  Claim C2. For every service of a list that \<open>calculateCredit\<close> accepts, the recorded
  \<open>daysWithoutService\<close> is the larger of 0 and the day count from the billing start to
  the service start, less one. When the service starts on the billing start date (the
  dates of the service being valid dates and its price finite), \<open>daysWithoutService\<close>
  is 0 and \<open>creditAmount\<close> is 0.
\<close>

theorem daysWithoutService_clamped:
  assumes run: "calculateCredit P r svcs = Inr res" and i: "i < length svcs"
  shows "daysWithoutService (services res ! i) =
           Math_max (Fin 0)
             (jsub (calculateDaysBetween (P (invoiceStartDate (svcs ! i)))
                      (P (actualServiceStartDate (svcs ! i)))) (Fin 1)) \<and>
         (hasValidDates P (svcs ! i) \<and> isFinite (pricePaid (svcs ! i)) \<and>
          P (actualServiceStartDate (svcs ! i)) = P (invoiceStartDate (svcs ! i)) \<longrightarrow>
            daysWithoutService (services res ! i) = Fin 0 \<and>
            creditAmount (services res ! i) = Fin 0)"
proof -
  let ?s = "svcs ! i"
  let ?c = "serviceCalculation P r ?s"
  have c: "services res ! i = ?c" and ok: "\<not> failsCheck P ?s"
    using calculateCredit_nth [OF run i] by simp_all
  have formula: "daysWithoutService ?c =
      Math_max (Fin 0) (jsub (calculateDaysBetween (P (invoiceStartDate ?s))
        (P (actualServiceStartDate ?s))) (Fin 1))"
    by (rule serviceCalculation_relations(5))
  have zero: "daysWithoutService ?c = Fin 0 \<and> creditAmount ?c = Fin 0"
    if valid: "hasValidDates P ?s" and fin: "isFinite (pricePaid ?s)"
      and same: "P (actualServiceStartDate ?s) = P (invoiceStartDate ?s)"
  proof -
    from valid obtain ts te tv where
      ts: "P (invoiceStartDate ?s) = TimeValue ts" and
      te: "P (invoiceEndDate ?s) = TimeValue te" and
      tv: "P (actualServiceStartDate ?s) = TimeValue tv" and
      rs: "\<bar>ts\<bar> \<le> 8640000000000000" and re: "\<bar>te\<bar> \<le> 8640000000000000" and
      rv: "\<bar>tv\<bar> \<le> 8640000000000000"
      by (rule hasValidDates_TimeValue)
    from same ts tv have eq: "tv = ts" by simp
    from fin obtain p where p: "pricePaid ?s = Fin p" and pd: "\<bar>p\<bar> < 2 ^ 1024"
      by (rule isFinite_double)
    from ok p have pos: "0 < p" by (simp add: failsCheck_def)
    note sc = serviceCalculation_valid [OF ts te tv rs re rv ok]
    have d: "daysWithoutService ?c = Fin 0" using sc(6) eq by simp
    have n: "2 \<le> roundedDays ts te + 1" using sc(1) by simp
    then have nz: "of_int (roundedDays ts te + 1) \<noteq> (0::real)" by linarith
    from pd pos have "p < 2 ^ 1024" by simp
    from dailyRate_finite(1) [OF pos this n] nz
    have "jdiv (Fin p) (totalBillingDays ?c) =
        Fin (nearestDouble (p / of_int (roundedDays ts te + 1)))"
      unfolding sc(5) by simp
    then have "creditAmount ?c = Fin 0"
      unfolding serviceCalculation_relations(2) serviceCalculation_relations(1) p d by simp
    with d show ?thesis by simp
  qed
  from formula zero show ?thesis unfolding c by blast
qed

text \<open>
  Claim C3. For every service with valid dates in a list that \<open>calculateCredit\<close>
  accepts, the calculation produced for it has whole day counts with
  \<open>totalBillingDays \<ge> 1\<close> and \<open>0 \<le> daysWithoutService \<le> totalBillingDays\<close>,
  \<open>dailyRate\<close> is the price divided by \<open>totalBillingDays\<close>, \<open>creditAmount\<close> is
  \<open>dailyRate\<close> times \<open>daysWithoutService\<close>, \<open>taxOnCredit\<close> is \<open>creditAmount\<close> times
  the hundredth of the tax rate, and \<open>totalCreditWithTax\<close> is their sum, for every tax
  rate.
\<close>

theorem creditCalculation_invariants:
  assumes run: "calculateCredit P r svcs = Inr res" and i: "i < length svcs"
    and valid: "hasValidDates P (svcs ! i)"
  shows "(\<exists>n k :: int. totalBillingDays (services res ! i) = Fin (of_int n) \<and>
            daysWithoutService (services res ! i) = Fin (of_int k) \<and>
            1 \<le> n \<and> 0 \<le> k \<and> k \<le> n) \<and>
         jle (Fin 1) (totalBillingDays (services res ! i)) \<and>
         jle (Fin 0) (daysWithoutService (services res ! i)) \<and>
         jle (daysWithoutService (services res ! i)) (totalBillingDays (services res ! i)) \<and>
         dailyRate (services res ! i) =
           jdiv (pricePaid (svcs ! i)) (totalBillingDays (services res ! i)) \<and>
         creditAmount (services res ! i) =
           jmul (dailyRate (services res ! i)) (daysWithoutService (services res ! i)) \<and>
         taxOnCredit (services res ! i) =
           jmul (creditAmount (services res ! i)) (jdiv r (Fin 100)) \<and>
         totalCreditWithTax (services res ! i) =
           jadd (creditAmount (services res ! i)) (taxOnCredit (services res ! i))"
proof -
  let ?s = "svcs ! i"
  let ?c = "serviceCalculation P r ?s"
  have c: "services res ! i = ?c" and ok: "\<not> failsCheck P ?s"
    using calculateCredit_nth [OF run i] by simp_all
  from valid obtain ts te tv where
    ts: "P (invoiceStartDate ?s) = TimeValue ts" and
    te: "P (invoiceEndDate ?s) = TimeValue te" and
    tv: "P (actualServiceStartDate ?s) = TimeValue tv" and
    rs: "\<bar>ts\<bar> \<le> 8640000000000000" and re: "\<bar>te\<bar> \<le> 8640000000000000" and
    rv: "\<bar>tv\<bar> \<le> 8640000000000000"
    by (rule hasValidDates_TimeValue)
  let ?n = "roundedDays ts te + 1"
  let ?k = "roundedDays ts tv"
  note sc = serviceCalculation_valid [OF ts te tv rs re rv ok]
  have ints: "\<exists>n k :: int. totalBillingDays ?c = Fin (of_int n) \<and>
      daysWithoutService ?c = Fin (of_int k) \<and> 1 \<le> n \<and> 0 \<le> k \<and> k \<le> n"
  proof (intro exI conjI)
    show "totalBillingDays ?c = Fin (of_int ?n)" by (rule sc(5))
    show "daysWithoutService ?c = Fin (of_int ?k)" by (rule sc(6))
    show "1 \<le> ?n" using sc(1) by linarith
    show "0 \<le> ?k" by (rule sc(2))
    show "?k \<le> ?n" using sc(3) by linarith
  qed
  have n1: "(1::real) \<le> of_int ?n" using sc(1) by linarith
  have k0: "(0::real) \<le> of_int ?k" using sc(2) by linarith
  have kn: "(of_int ?k :: real) \<le> of_int ?n" using sc(3) by linarith
  have b1: "jle (Fin 1) (totalBillingDays ?c)" unfolding sc(5) using n1 by (simp only: jle.simps)
  have b2: "jle (Fin 0) (daysWithoutService ?c)" unfolding sc(6) using k0 by (simp only: jle.simps)
  have b3: "jle (daysWithoutService ?c) (totalBillingDays ?c)"
    unfolding sc(5) sc(6) using kn by (simp only: jle.simps)
  from ints b1 b2 b3 serviceCalculation_relations(1-4) [of P r ?s]
  show ?thesis unfolding c by blast
qed

text \<open>
  Claim C6, amended. For a service with a finite price in an accepted list, if the
  computed \<open>daysWithoutService\<close> is at most the computed \<open>totalBillingDays\<close> and the
  computed daily rate has not underflowed (it is at least \<open>2 powi (- 1022)\<close>, the
  smallest normal double), then \<open>creditAmount\<close> is at most \<open>pricePaid\<close>.
\<close>

theorem creditAmount_le_pricePaid:
  assumes run: "calculateCredit P r svcs = Inr res" and i: "i < length svcs"
    and fin: "isFinite (pricePaid (svcs ! i))"
    and days: "jle (daysWithoutService (services res ! i)) (totalBillingDays (services res ! i))"
    and normal: "jle (Fin (2 powi (- 1022))) (dailyRate (services res ! i))"
  shows "jle (creditAmount (services res ! i)) (pricePaid (svcs ! i))"
proof -
  let ?s = "svcs ! i"
  let ?c = "serviceCalculation P r ?s"
  have c: "services res ! i = ?c" and ok: "\<not> failsCheck P ?s"
    using calculateCredit_nth [OF run i] by simp_all
  from days have "hasValidDates P ?s" unfolding c by (rule days_compared_valid)
  then obtain ts te tv where
    ts: "P (invoiceStartDate ?s) = TimeValue ts" and
    te: "P (invoiceEndDate ?s) = TimeValue te" and
    tv: "P (actualServiceStartDate ?s) = TimeValue tv" and
    rs: "\<bar>ts\<bar> \<le> 8640000000000000" and re: "\<bar>te\<bar> \<le> 8640000000000000" and
    rv: "\<bar>tv\<bar> \<le> 8640000000000000"
    by (rule hasValidDates_TimeValue)
  define n where "n = roundedDays ts te + 1"
  define k where "k = roundedDays ts tv"
  note sc = serviceCalculation_valid [OF ts te tv rs re rv ok]
  from fin obtain p where p: "pricePaid ?s = Fin p" and pd: "nearestDouble p = p"
    and pb: "\<bar>p\<bar> < 2 ^ 1024"
    by (rule isFinite_double)
  from ok p have pos: "0 < p" by (simp add: failsCheck_def)
  from pb pos have plt: "p < 2 ^ 1024" by simp
  have n2: "2 \<le> n" using sc(1) by (simp add: n_def)
  have nb: "n \<le> 800000004" using sc(4) by (simp add: n_def)
  have k0: "0 \<le> k" using sc(2) by (simp add: k_def)
  have kn: "k \<le> n - 1" using sc(3) by (simp add: k_def n_def)
  define q where "q = nearestDouble (p / of_int n)"
  have nz: "of_int n \<noteq> (0::real)" using n2 by linarith
  have rate: "dailyRate ?c = Fin q"
    unfolding serviceCalculation_relations(1) p sc(5) q_def n_def [symmetric]
    using dailyRate_finite(1) [OF pos plt n2] nz by simp
  have q0: "0 \<le> q" unfolding q_def using pos plt n2 by (rule dailyRate_finite(2))
  from normal have qn: "2 powi (- 1022) \<le> q" unfolding c rate by simp
  have npos: "(0::real) < of_int n" using n2 by linarith
  have "q * (1 - 1 / 2 ^ 53) \<le> p / of_int n"
    unfolding q_def using qn [unfolded q_def] pos npos by (intro nearestDouble_relative) simp_all
  then have A: "q * (1 - 1 / 2 ^ 53) * of_int n \<le> p"
    using npos by (simp add: pos_le_divide_eq)
  have "(of_int n :: real) \<le> 800000004" using nb by linarith
  then have "(of_int n :: real) * (1 / 2 ^ 53) \<le> 1" by simp
  then have B: "(of_int n :: real) - 1 \<le> (1 - 1 / 2 ^ 53) * of_int n"
    by (simp add: algebra_simps)
  have "(of_int k :: real) \<le> of_int n - 1" using kn by linarith
  with B have "(of_int k :: real) \<le> (1 - 1 / 2 ^ 53) * of_int n" by linarith
  then have "q * of_int k \<le> q * ((1 - 1 / 2 ^ 53) * of_int n)"
    using q0 by (rule mult_left_mono)
  with A have le: "q * of_int k \<le> p" by (simp add: mult.assoc)
  have ge: "0 \<le> q * of_int k" using q0 k0 by simp
  have up: "nearestDouble (q * of_int k) \<le> p"
    using nearestDouble_mono [OF ge le] pd by simp
  have lo: "0 \<le> nearestDouble (q * of_int k)" using ge by (rule nearestDouble_nonneg)
  from up lo plt have "\<bar>nearestDouble (q * of_int k)\<bar> < 2 ^ 1024" by simp
  then have "toDouble (q * of_int k) = Fin (nearestDouble (q * of_int k))" by (rule toDouble_Fin)
  then have "creditAmount ?c = Fin (nearestDouble (q * of_int k))"
    unfolding serviceCalculation_relations(2) rate sc(6) k_def [symmetric] by simp
  with up show ?thesis unfolding c p by simp
qed


section \<open>Evaluating the rounding\<close>

lemma toDouble_normal:
  assumes "2 powi k \<le> \<bar>x\<bar>" and "\<bar>x\<bar> < 2 powi (k + 1)" and "- 1022 \<le> k" and "k \<le> 999"
  shows "toDouble x = Fin (of_int (roundHalfEven (x / 2 powi (k - 52))) * 2 powi (k - 52))"
proof -
  have E: "ulpExponent x = k - 52" using ulpExponent_eval [OF assms(1,2)] assms(3) by simp
  have "(2::real) powi (k + 1) \<le> 2 powi 1000" using assms(4) by (intro pow2_mono) simp
  with assms(2) have "\<bar>x\<bar> \<le> 2 ^ 1000" by simp
  then have "toDouble x = Fin (nearestDouble x)" by (rule toDouble_small)
  then show ?thesis by (simp add: nearestDouble_def E)
qed

lemma toDouble_subnormal:
  assumes "x \<noteq> 0" and "\<bar>x\<bar> < 2 powi (- 1022)"
  shows "toDouble x = Fin (of_int (roundHalfEven (x / 2 powi (- 1074))) * 2 powi (- 1074))"
proof -
  have E: "ulpExponent x = - 1074" using assms by (rule ulpExponent_subnormal)
  have "(2::real) powi (- 1022) \<le> 2 powi 1000" by (intro pow2_mono) simp
  with assms(2) have "\<bar>x\<bar> \<le> 2 ^ 1000" by simp
  then have "toDouble x = Fin (nearestDouble x)" by (rule toDouble_small)
  then show ?thesis by (simp add: nearestDouble_def E)
qed

lemma toDouble_numeral:
  "numeral w \<le> (9007199254740992::int) \<Longrightarrow> toDouble (numeral w) = Fin (numeral w)"
  using toDouble_of_int [of "numeral w"] by simp

section \<open>Aggregation\<close>

lemma foldl_jadd_map:
  "foldl (\<lambda>sum calc. jadd sum (f calc)) z xs = foldl jadd z (map f xs)"
  by (induction xs arbitrary: z) simp_all

lemma serviceCalculateCredit_fields:
  "request (serviceCalculateCredit now invoice creditRequest) = creditRequest"
  "calculations (serviceCalculateCredit now invoice creditRequest) =
     creditItems invoice creditRequest (itemsToCredit creditRequest) []"
  "totalCredit (serviceCalculateCredit now invoice creditRequest) =
     foldl (\<lambda>sum calc. jadd sum (itemCreditAmount calc)) (Fin 0)
       (creditItems invoice creditRequest (itemsToCredit creditRequest) [])"
  "totalTax (serviceCalculateCredit now invoice creditRequest) =
     foldl (\<lambda>sum calc. jadd sum (itemTaxOnCredit calc)) (Fin 0)
       (creditItems invoice creditRequest (itemsToCredit creditRequest) [])"
  "finalCreditAmount (serviceCalculateCredit now invoice creditRequest) =
     jadd (totalCredit (serviceCalculateCredit now invoice creditRequest))
          (totalTax (serviceCalculateCredit now invoice creditRequest))"
  "calculationDate (serviceCalculateCredit now invoice creditRequest) = now"
  by (simp_all add: serviceCalculateCredit_def Let_def)

lemma serviceCalculateCredit_totals:
  "totalCredit (serviceCalculateCredit now invoice creditRequest) =
     sumNumbers (map itemCreditAmount (calculations (serviceCalculateCredit now invoice creditRequest)))"
  "totalTax (serviceCalculateCredit now invoice creditRequest) =
     sumNumbers (map itemTaxOnCredit (calculations (serviceCalculateCredit now invoice creditRequest)))"
  unfolding serviceCalculateCredit_fields(2-4) sumNumbers_def
  by (rule foldl_jadd_map)+


lemma accepted_run:
  assumes "svcs \<noteq> []" and "\<not> someFailsCheck P svcs"
  obtains res where "calculateCredit P r svcs = Inr res"
proof -
  from assms have "\<not> (\<exists>a. calculateCredit P r svcs = Inl a)"
    unfolding calculateCredit_Inl_iff by simp
  then show ?thesis using that by (cases "calculateCredit P r svcs") auto
qed

lemma januaryServices_pass:
  "\<not> failsCheck exampleDate serviceA" "\<not> failsCheck exampleDate serviceB"
  "\<not> failsCheck exampleDate serviceC" "\<not> failsCheck exampleDate tinyService"
  by (simp_all add: failsCheck_def missingRequiredField_def serviceA_def serviceB_def
      serviceC_def tinyService_def exampleDate_def jgt_def)

lemma january_days:
  "calculateDaysBetween (exampleDate ''2024-01-01'') (exampleDate ''2024-01-31'') = Fin 31"
  "calculateDaysBetween (exampleDate ''2024-01-01'') (exampleDate ''2024-01-10'') = Fin 10"
  "calculateDaysBetween (exampleDate ''2024-01-01'') (exampleDate ''2024-01-05'') = Fin 5"
  by (simp_all add: exampleDate_def calculateDaysBetween_exact)

lemma nine_days: "Math_max (Fin 0) (jsub (Fin 10) (Fin 1)) = Fin 9"
  by (simp add: jsub_def toDouble_numeral)

lemma four_days: "Math_max (Fin 0) (jsub (Fin 5) (Fin 1)) = Fin 4"
  by (simp add: jsub_def toDouble_numeral)

lemma january_credits:
  "creditAmount (serviceCalculation exampleDate r serviceA) = Fin (6544020813383999 / 2 ^ 51)"
  "creditAmount (serviceCalculation exampleDate r serviceB) = Fin (6544020813383999 / 2 ^ 51)"
  "creditAmount (serviceCalculation exampleDate r serviceC) = Fin (1639273945011027 / 2 ^ 49)"
  by (simp_all add: serviceCalculation_def Let_def serviceA_def serviceB_def serviceC_def
      january_days nine_days toDouble_normal [where k = "- 2"] toDouble_normal [where k = 1]
      roundHalfEven_def)


lemma forward_sum:
  "sumNumbers [Fin (6544020813383999 / 2 ^ 51), Fin (6544020813383999 / 2 ^ 51),
      Fin (1639273945011027 / 2 ^ 49)] = Fin (2455642175851513 / 2 ^ 48)"
  by (simp add: sumNumbers_def toDouble_normal [where k = 1] toDouble_normal [where k = 2]
      toDouble_normal [where k = 3] roundHalfEven_def Let_def)

lemma reversed_sum:
  "sumNumbers [Fin (1639273945011027 / 2 ^ 49), Fin (6544020813383999 / 2 ^ 51),
      Fin (6544020813383999 / 2 ^ 51)] = Fin (4911284351703027 / 2 ^ 49)"
  by (simp add: sumNumbers_def toDouble_normal [where k = 1] toDouble_normal [where k = 2]
      toDouble_normal [where k = 3] roundHalfEven_def Let_def)

text \<open>
  Claim C5, as stated, fails: the totals are sums of doubles and depend on the order of
  the items. The three services with the prices 10.01, 10.01 and 10.03 are accepted in
  either order; in the order given \<open>totalCreditAmount\<close> is 8.724193548387095, and in the
  reverse order it is 8.724193548387097.
\<close>

theorem calculateCredit_order_dependent:
  "\<not> isl (calculateCredit exampleDate (Fin 13) [serviceA, serviceB, serviceC]) \<and>
   \<not> isl (calculateCredit exampleDate (Fin 13) [serviceC, serviceB, serviceA]) \<and>
   totalCreditAmount (projr (calculateCredit exampleDate (Fin 13) [serviceA, serviceB, serviceC])) =
     Fin (2455642175851513 / 2 ^ 48) \<and>
   totalCreditAmount (projr (calculateCredit exampleDate (Fin 13) [serviceC, serviceB, serviceA])) =
     Fin (4911284351703027 / 2 ^ 49)"
proof -
  obtain res where run: "calculateCredit exampleDate (Fin 13) [serviceA, serviceB, serviceC] = Inr res"
    by (rule accepted_run [of "[serviceA, serviceB, serviceC]" exampleDate "Fin 13"])
       (simp_all add: someFailsCheck_def januaryServices_pass)
  obtain res' where run': "calculateCredit exampleDate (Fin 13) [serviceC, serviceB, serviceA] = Inr res'"
    by (rule accepted_run [of "[serviceC, serviceB, serviceA]" exampleDate "Fin 13"])
       (simp_all add: someFailsCheck_def januaryServices_pass)
  have "totalCreditAmount res = Fin (2455642175851513 / 2 ^ 48)"
    unfolding calculateCredit_Inr(2) [OF run] calculateCredit_Inr(1) [OF run]
    by (simp only: list.map january_credits forward_sum)
  moreover have "totalCreditAmount res' = Fin (4911284351703027 / 2 ^ 49)"
    unfolding calculateCredit_Inr(2) [OF run'] calculateCredit_Inr(1) [OF run']
    by (simp only: list.map january_credits reversed_sum)
  ultimately show ?thesis by (simp add: run run')
qed

text \<open>
  Claim C5, amended. The result of \<open>calculateCredit\<close> on an accepted list holds one
  calculation per service, in the order of the list (same ids and names);
  \<open>totalCreditAmount\<close> and \<open>totalTaxOnCredit\<close> are the per-service credit amounts and
  taxes added from left to right, in the order of the list and starting from 0, each
  addition rounded to a double, and \<open>grandTotalWithTax\<close> is the rounded sum of the two.
\<close>

theorem calculateCredit_aggregation:
  assumes run: "calculateCredit P r svcs = Inr res"
  shows "services res = map (serviceCalculation P r) svcs \<and>
         length (services res) = length svcs \<and>
         map calc_id (services res) = map item_id svcs \<and>
         map calc_serviceName (services res) = map serviceName svcs \<and>
         totalCreditAmount res = sumNumbers (map creditAmount (services res)) \<and>
         totalTaxOnCredit res = sumNumbers (map taxOnCredit (services res)) \<and>
         grandTotalWithTax res =
           jadd (sumNumbers (map creditAmount (services res)))
                (sumNumbers (map taxOnCredit (services res)))"
proof -
  note r = calculateCredit_Inr [OF run]
  have ids: "map calc_id (services res) = map item_id svcs"
    unfolding r(1) by (simp add: serviceCalculation_relations)
  have names: "map calc_serviceName (services res) = map serviceName svcs"
    unfolding r(1) by (simp add: serviceCalculation_relations)
  have len: "length (services res) = length svcs" unfolding r(1) by simp
  have grand: "grandTotalWithTax res =
      jadd (sumNumbers (map creditAmount (services res)))
           (sumNumbers (map taxOnCredit (services res)))"
    using r(2) r(3) r(4) by simp
  from r(1) len ids names r(2) r(3) grand show ?thesis by blast
qed

theorem calculateCredit_aggregation_witness:
  "\<exists>res. calculateCredit exampleDate (Fin 13) [serviceA, serviceB, serviceC] = Inr res \<and>
     length (services res) = 3 \<and>
     map calc_id (services res) = [1, 2, 3] \<and>
     map calc_serviceName (services res) = [''A'', ''B'', ''C''] \<and>
     totalCreditAmount res = Fin (2455642175851513 / 2 ^ 48)"
proof -
  obtain res where run: "calculateCredit exampleDate (Fin 13) [serviceA, serviceB, serviceC] = Inr res"
    by (rule accepted_run [of "[serviceA, serviceB, serviceC]" exampleDate "Fin 13"])
       (simp_all add: someFailsCheck_def januaryServices_pass)
  note agg = calculateCredit_aggregation [OF run]
  from agg have sv: "services res =
      map (serviceCalculation exampleDate (Fin 13)) [serviceA, serviceB, serviceC]"
    by blast
  from agg have len: "length (services res) = 3" by simp
  from agg have "map calc_id (services res) = map item_id [serviceA, serviceB, serviceC]"
    by blast
  then have ids: "map calc_id (services res) = [1, 2, 3]"
    by (simp add: serviceA_def serviceB_def serviceC_def)
  from agg have "map calc_serviceName (services res) =
      map serviceName [serviceA, serviceB, serviceC]"
    by blast
  then have names: "map calc_serviceName (services res) = [''A'', ''B'', ''C'']"
    by (simp add: serviceA_def serviceB_def serviceC_def)
  from agg have "totalCreditAmount res = sumNumbers (map creditAmount (services res))" by blast
  then have tc: "totalCreditAmount res = Fin (2455642175851513 / 2 ^ 48)"
    unfolding sv by (simp only: list.map january_credits forward_sum)
  show ?thesis by (rule exI [of _ res]) (simp only: run len ids names tc simp_thms)
qed

lemma tiny_calculation:
  "totalBillingDays (serviceCalculation exampleDate r tinyService) = Fin 5"
  "daysWithoutService (serviceCalculation exampleDate r tinyService) = Fin 4"
  "dailyRate (serviceCalculation exampleDate r tinyService) = Fin (1 / 2 ^ 1074)"
  "creditAmount (serviceCalculation exampleDate r tinyService) = Fin (4 / 2 ^ 1074)"
  by (simp_all add: serviceCalculation_def Let_def tinyService_def january_days four_days
      toDouble_subnormal roundHalfEven_def)

text \<open>
  Claim C6, as stated, fails when the daily rate underflows. The price 1.5e-323 is three
  times the smallest positive double; over 5 billing days the daily rate, 0.6 times
  the smallest double, is rounded up to the smallest double, and 4 days without service
  give a credit of four times the smallest double, more than the price.
\<close>

theorem creditAmount_exceeds_tiny_price:
  "\<not> isl (calculateCredit exampleDate (Fin 13) [tinyService]) \<and>
   pricePaid tinyService = Fin (3 / 2 ^ 1074) \<and>
   totalBillingDays (services (projr (calculateCredit exampleDate (Fin 13) [tinyService])) ! 0) =
     Fin 5 \<and>
   daysWithoutService (services (projr (calculateCredit exampleDate (Fin 13) [tinyService])) ! 0) =
     Fin 4 \<and>
   creditAmount (services (projr (calculateCredit exampleDate (Fin 13) [tinyService])) ! 0) =
     Fin (4 / 2 ^ 1074) \<and>
   \<not> jle (creditAmount (services (projr (calculateCredit exampleDate (Fin 13) [tinyService])) ! 0))
       (pricePaid tinyService)"
proof -
  obtain res where run: "calculateCredit exampleDate (Fin 13) [tinyService] = Inr res"
    by (rule accepted_run [of "[tinyService]" exampleDate "Fin 13"])
       (simp_all add: someFailsCheck_def januaryServices_pass)
  have c: "services res ! 0 = serviceCalculation exampleDate (Fin 13) tinyService"
    unfolding calculateCredit_Inr(1) [OF run] by simp
  have p: "pricePaid tinyService = Fin (3 / 2 ^ 1074)" by (simp add: tinyService_def)
  show ?thesis unfolding run by (simp add: c tiny_calculation p)
qed


section \<open>Examples\<close>

lemma example_doubles:
  "isDouble (5628795846771343 / 2 ^ 46)" "isDouble 15"
  using isDouble_scaled_int [of 5628795846771343 "- 46"] isDouble_of_int [of 15]
  by simp_all

lemma exampleServices_pass:
  "\<not> failsCheck exampleDate exampleService" "\<not> failsCheck exampleDate exampleService2"
  by (simp_all add: failsCheck_def missingRequiredField_def exampleService_def
      exampleService2_def exampleDate_def jgt_def)

lemma exampleServices_valid:
  "hasValidDates exampleDate exampleService" "hasValidDates exampleDate exampleService2"
  "isFinite (pricePaid exampleService)" "isFinite (pricePaid exampleService2)"
  using example_doubles
  by (simp_all add: hasValidDates_def exampleService_def exampleService2_def exampleDate_def)

lemma exampleService_calculation:
  "totalBillingDays (serviceCalculation exampleDate r exampleService) = Fin 31"
  "daysWithoutService (serviceCalculation exampleDate r exampleService) = Fin 9"
  "dailyRate (serviceCalculation exampleDate r exampleService) = Fin (1452592476586153 / 2 ^ 49)"
  "creditAmount (serviceCalculation exampleDate r exampleService) =
     Fin (817083268079711 / 2 ^ 45)"
  by (simp_all add: serviceCalculation_def Let_def exampleService_def january_days nine_days
      toDouble_normal [where k = 1] toDouble_normal [where k = 4] roundHalfEven_def)

lemma exampleServices_run:
  obtains res where
    "calculateCredit exampleDate (Fin 13) [exampleService, exampleService2] = Inr res"
  by (rule accepted_run [of "[exampleService, exampleService2]" exampleDate "Fin 13"])
     (simp_all add: someFailsCheck_def exampleServices_pass)

theorem daysWithoutService_clamped_witness:
  "\<exists>res. calculateCredit exampleDate (Fin 13) [exampleService, exampleService2] = Inr res \<and>
     daysWithoutService (services res ! 0) = Fin 9 \<and>
     daysWithoutService (services res ! 1) = Fin 0 \<and>
     creditAmount (services res ! 1) = Fin 0"
proof -
  obtain res where
    run: "calculateCredit exampleDate (Fin 13) [exampleService, exampleService2] = Inr res"
    by (rule exampleServices_run)
  have i0: "0 < length [exampleService, exampleService2]"
    and i1: "1 < length [exampleService, exampleService2]"
    by simp_all
  have first: "Math_max (Fin 0)
      (jsub (calculateDaysBetween
               (exampleDate (invoiceStartDate ([exampleService, exampleService2] ! 0)))
               (exampleDate (actualServiceStartDate ([exampleService, exampleService2] ! 0))))
            (Fin 1)) = Fin 9"
    by (simp add: exampleService_def january_days nine_days)
  have second: "hasValidDates exampleDate ([exampleService, exampleService2] ! 1) \<and>
      isFinite (pricePaid ([exampleService, exampleService2] ! 1)) \<and>
      exampleDate (actualServiceStartDate ([exampleService, exampleService2] ! 1)) =
      exampleDate (invoiceStartDate ([exampleService, exampleService2] ! 1))"
    using exampleServices_valid by (simp add: exampleService2_def)
  from daysWithoutService_clamped [OF run i0] first have "daysWithoutService (services res ! 0) = Fin 9"
    by simp
  moreover from daysWithoutService_clamped [OF run i1] second
  have "daysWithoutService (services res ! 1) = Fin 0 \<and> creditAmount (services res ! 1) = Fin 0"
    by blast
  ultimately show ?thesis using run by blast
qed

theorem creditCalculation_invariants_witness:
  "\<exists>res. calculateCredit exampleDate (Fin 13) [exampleService, exampleService2] = Inr res \<and>
     hasValidDates exampleDate ([exampleService, exampleService2] ! 0) \<and>
     jle (Fin 1) (totalBillingDays (services res ! 0)) \<and>
     jle (daysWithoutService (services res ! 0)) (totalBillingDays (services res ! 0)) \<and>
     dailyRate (services res ! 0) =
       jdiv (Fin (5628795846771343 / 2 ^ 46)) (totalBillingDays (services res ! 0)) \<and>
     totalCreditWithTax (services res ! 0) =
       jadd (creditAmount (services res ! 0)) (taxOnCredit (services res ! 0))"
proof -
  obtain res where
    run: "calculateCredit exampleDate (Fin 13) [exampleService, exampleService2] = Inr res"
    by (rule exampleServices_run)
  have valid: "hasValidDates exampleDate ([exampleService, exampleService2] ! 0)"
    by (simp add: exampleServices_valid)
  have price: "pricePaid ([exampleService, exampleService2] ! 0) = Fin (5628795846771343 / 2 ^ 46)"
    by (simp add: exampleService_def)
  from creditCalculation_invariants [OF run _ valid] price valid run show ?thesis by auto
qed

theorem creditAmount_le_pricePaid_witness:
  "\<exists>res. calculateCredit exampleDate (Fin 13) [exampleService, exampleService2] = Inr res \<and>
     isFinite (pricePaid ([exampleService, exampleService2] ! 0)) \<and>
     jle (daysWithoutService (services res ! 0)) (totalBillingDays (services res ! 0)) \<and>
     jle (Fin (2 powi (- 1022))) (dailyRate (services res ! 0)) \<and>
     creditAmount (services res ! 0) = Fin (817083268079711 / 2 ^ 45) \<and>
     jle (creditAmount (services res ! 0)) (Fin (5628795846771343 / 2 ^ 46))"
proof -
  obtain res where
    run: "calculateCredit exampleDate (Fin 13) [exampleService, exampleService2] = Inr res"
    by (rule exampleServices_run)
  have i0: "0 < length [exampleService, exampleService2]" by simp
  have fin: "isFinite (pricePaid ([exampleService, exampleService2] ! 0))"
    by (simp add: exampleServices_valid)
  have price: "pricePaid ([exampleService, exampleService2] ! 0) = Fin (5628795846771343 / 2 ^ 46)"
    by (simp add: exampleService_def)
  have c: "services res ! 0 = serviceCalculation exampleDate (Fin 13) exampleService"
    unfolding calculateCredit_Inr(1) [OF run] by simp
  have days: "jle (daysWithoutService (services res ! 0)) (totalBillingDays (services res ! 0))"
    unfolding c by (simp add: exampleService_calculation)
  have normal: "jle (Fin (2 powi (- 1022))) (dailyRate (services res ! 0))"
    unfolding c by (simp add: exampleService_calculation)
  have credit: "creditAmount (services res ! 0) = Fin (817083268079711 / 2 ^ 45)"
    unfolding c by (rule exampleService_calculation(4))
  from creditAmount_le_pricePaid [OF run i0 fin days normal]
  have "jle (creditAmount (services res ! 0)) (Fin (5628795846771343 / 2 ^ 46))"
    unfolding price .
  with run fin days normal credit show ?thesis by blast
qed

section \<open>Invoice-item credits\<close>

lemma calculateItemCredit_partial:
  assumes "isPartialCredit req" "creditStartDate req = Some cs" "creditEndDate req = Some ce"
  shows "calculateItemCredit item req rate =
     (let original = jmul (unitPrice item) (quantity item);
          billingDays = calculateDaysBetween (serviceStartDate item) (serviceEndDate item);
          creditDays = calculateDaysBetween cs ce;
          credit = jmul original (jdiv creditDays billingDays)
      in \<lparr> originalAmount = original, proratedAmount = credit, itemCreditAmount = credit,
           itemTaxOnCredit = jmul credit (jdiv rate (Fin 100)),
           itemTotalCreditWithTax = jadd credit (jmul credit (jdiv rate (Fin 100))),
           creditPercentage = jdiv creditDays billingDays,
           daysInBillingPeriod = billingDays, daysCredited = creditDays \<rparr>)"
  using assms by (simp add: calculateItemCredit_def Let_def)

lemma calculateItemCredit_full:
  assumes "\<not> isPartialCredit req \<or> creditStartDate req = None \<or> creditEndDate req = None"
  shows "calculateItemCredit item req rate =
     (let original = jmul (unitPrice item) (quantity item);
          billingDays = calculateDaysBetween (serviceStartDate item) (serviceEndDate item)
      in \<lparr> originalAmount = original, proratedAmount = original, itemCreditAmount = original,
           itemTaxOnCredit = jmul original (jdiv rate (Fin 100)),
           itemTotalCreditWithTax = jadd original (jmul original (jdiv rate (Fin 100))),
           creditPercentage = Fin 1,
           daysInBillingPeriod = billingDays, daysCredited = billingDays \<rparr>)"
  using assms
  by (cases "isPartialCredit req"; cases "creditStartDate req"; cases "creditEndDate req")
     (simp_all add: calculateItemCredit_def Let_def)

lemma calculateItemCredit_originalAmount:
  "originalAmount (calculateItemCredit item req rate) = jmul (unitPrice item) (quantity item)"
  by (cases "isPartialCredit req"; cases "creditStartDate req"; cases "creditEndDate req")
     (simp_all add: calculateItemCredit_def Let_def)

text \<open>
  Claim C7. In the invoice-item-credit mode, for a partial request with both credit
  dates, the credit of an item is its original amount (unit price times quantity) times
  the quotient of the credit days by the billing days, both counted by
  \<open>calculateDaysBetween\<close>: the first over the credit period of the request, the second
  over the service period of the item. For a request that is not partial, the credit is
  the original amount and the credit percentage is 1.
\<close>

theorem calculateItemCredit_modes:
  "(isPartialCredit req \<and> creditStartDate req = Some cs \<and> creditEndDate req = Some ce \<longrightarrow>
      itemCreditAmount (calculateItemCredit item req rate) =
        jmul (originalAmount (calculateItemCredit item req rate))
             (jdiv (daysCredited (calculateItemCredit item req rate))
                   (daysInBillingPeriod (calculateItemCredit item req rate))) \<and>
      daysCredited (calculateItemCredit item req rate) = calculateDaysBetween cs ce \<and>
      daysInBillingPeriod (calculateItemCredit item req rate) =
        calculateDaysBetween (serviceStartDate item) (serviceEndDate item)) \<and>
   (\<not> isPartialCredit req \<longrightarrow>
      itemCreditAmount (calculateItemCredit item req rate) =
        originalAmount (calculateItemCredit item req rate) \<and>
      creditPercentage (calculateItemCredit item req rate) = Fin 1) \<and>
   originalAmount (calculateItemCredit item req rate) = jmul (unitPrice item) (quantity item)"
proof -
  have partial: "itemCreditAmount (calculateItemCredit item req rate) =
        jmul (originalAmount (calculateItemCredit item req rate))
             (jdiv (daysCredited (calculateItemCredit item req rate))
                   (daysInBillingPeriod (calculateItemCredit item req rate))) \<and>
      daysCredited (calculateItemCredit item req rate) = calculateDaysBetween cs ce \<and>
      daysInBillingPeriod (calculateItemCredit item req rate) =
        calculateDaysBetween (serviceStartDate item) (serviceEndDate item)"
    if "isPartialCredit req" "creditStartDate req = Some cs" "creditEndDate req = Some ce"
    unfolding calculateItemCredit_partial [OF that] by (simp add: Let_def)
  have full: "itemCreditAmount (calculateItemCredit item req rate) =
        originalAmount (calculateItemCredit item req rate) \<and>
      creditPercentage (calculateItemCredit item req rate) = Fin 1"
    if "\<not> isPartialCredit req"
  proof -
    from that have whole:
      "\<not> isPartialCredit req \<or> creditStartDate req = None \<or> creditEndDate req = None"
      by simp
    show ?thesis unfolding calculateItemCredit_full [OF whole] by (simp add: Let_def)
  qed
  have original: "originalAmount (calculateItemCredit item req rate) =
      jmul (unitPrice item) (quantity item)"
    by (rule calculateItemCredit_originalAmount)
  from partial full original show ?thesis by blast
qed

text \<open>
  Claim C10. In the invoice-item-credit mode, a request marked partial whose credit
  start date or credit end date is absent is credited in full: the credit percentage is
  1, the credit is the original amount, and the days credited are the days of the
  billing period.
\<close>

theorem calculateItemCredit_partial_without_dates:
  "isPartialCredit req \<and> (creditStartDate req = None \<or> creditEndDate req = None) \<longrightarrow>
     creditPercentage (calculateItemCredit item req rate) = Fin 1 \<and>
     itemCreditAmount (calculateItemCredit item req rate) =
       originalAmount (calculateItemCredit item req rate) \<and>
     daysCredited (calculateItemCredit item req rate) =
       daysInBillingPeriod (calculateItemCredit item req rate)"
proof
  assume "isPartialCredit req \<and> (creditStartDate req = None \<or> creditEndDate req = None)"
  then have "\<not> isPartialCredit req \<or> creditStartDate req = None \<or> creditEndDate req = None"
    by auto
  then show "creditPercentage (calculateItemCredit item req rate) = Fin 1 \<and>
     itemCreditAmount (calculateItemCredit item req rate) =
       originalAmount (calculateItemCredit item req rate) \<and>
     daysCredited (calculateItemCredit item req rate) =
       daysInBillingPeriod (calculateItemCredit item req rate)"
    by (simp add: calculateItemCredit_full Let_def)
qed

lemma creditItems_map_filter:
  "creditItems invoice req ids calcs =
     calcs @ map (\<lambda>item. calculateItemCredit item req (taxRate invoice))
               (List.map_filter (itemWithId invoice) ids)"
proof (induction ids arbitrary: calcs)
  case Nil
  then show ?case by simp
next
  case (Cons itemId ids)
  show ?case
  proof (cases "find (\<lambda>i. invoiceItem_id i = itemId) (items invoice)")
    case None
    then show ?thesis using Cons.IH by (simp add: itemWithId_def)
  next
    case (Some item)
    then show ?thesis using Cons.IH by (simp add: itemWithId_def)
  qed
qed

lemma itemWithId_None_iff:
  "itemWithId invoice itemId = None \<longleftrightarrow> itemId \<notin> invoiceItem_id ` set (items invoice)"
  by (auto simp: itemWithId_def find_None_iff)

lemma itemWithId_Some:
  "itemWithId invoice itemId = Some item \<Longrightarrow>
     item \<in> set (items invoice) \<and> invoiceItem_id item = itemId"
  by (auto simp: itemWithId_def find_Some_iff)

lemma matched_ids:
  "map invoiceItem_id (List.map_filter (itemWithId invoice) ids) =
     filter (\<lambda>itemId. itemId \<in> invoiceItem_id ` set (items invoice)) ids"
proof (induction ids)
  case Nil
  then show ?case by simp
next
  case (Cons itemId ids)
  show ?case
  proof (cases "itemWithId invoice itemId")
    case None
    then show ?thesis using Cons.IH itemWithId_None_iff [of invoice itemId]
      by simp
  next
    case (Some item)
    then have "itemId \<in> invoiceItem_id ` set (items invoice)"
      using itemWithId_None_iff [of invoice itemId] by simp
    with Some show ?thesis using Cons.IH itemWithId_Some [OF Some]
      by simp
  qed
qed


lemma serviceCalculateCredit_calculations:
  "calculations (serviceCalculateCredit now invoice req) =
     map (\<lambda>item. calculateItemCredit item req (taxRate invoice))
       (List.map_filter (itemWithId invoice) (itemsToCredit req))"
  by (simp add: serviceCalculateCredit_fields(2) creditItems_map_filter)

text \<open>
  Claim C9. In the invoice-item-credit mode, \<open>calculateCredit\<close> of the service always
  returns a result for the request it was given; an id of \<open>itemsToCredit\<close> that no item
  of the invoice has is skipped. The calculations are those of the items found for
  the ids, in the order of \<open>itemsToCredit\<close>: one for each occurrence of an id that
  occurs among the items of the invoice.
\<close>

theorem serviceCalculateCredit_skips_unmatched:
  "calculations (serviceCalculateCredit now invoice req) =
     map (\<lambda>item. calculateItemCredit item req (taxRate invoice))
       (List.map_filter (itemWithId invoice) (itemsToCredit req)) \<and>
   map invoiceItem_id (List.map_filter (itemWithId invoice) (itemsToCredit req)) =
     filter (\<lambda>itemId. itemId \<in> invoiceItem_id ` set (items invoice)) (itemsToCredit req) \<and>
   length (calculations (serviceCalculateCredit now invoice req)) =
     length (filter (\<lambda>itemId. itemId \<in> invoiceItem_id ` set (items invoice))
               (itemsToCredit req)) \<and>
   request (serviceCalculateCredit now invoice req) = req"
proof -
  have "length (calculations (serviceCalculateCredit now invoice req)) =
      length (map invoiceItem_id (List.map_filter (itemWithId invoice) (itemsToCredit req)))"
    unfolding serviceCalculateCredit_calculations by simp
  then have "length (calculations (serviceCalculateCredit now invoice req)) =
      length (filter (\<lambda>itemId. itemId \<in> invoiceItem_id ` set (items invoice))
                (itemsToCredit req))"
    unfolding matched_ids .
  with serviceCalculateCredit_calculations [of now invoice req]
    matched_ids [of invoice "itemsToCredit req"]
    serviceCalculateCredit_fields(1) [of now invoice req]
  show ?thesis by blast
qed

lemma sampleInvoice_items:
  "itemWithId (createSampleInvoice exampleDate) ''ITEM-001'' =
     Some \<lparr> invoiceItem_id = ''ITEM-001'',
            description = ''High-Speed Internet Service - 100 Mbps'',
            unitPrice = Fin (5628795846771343 / 2 ^ 46), quantity = Fin 1,
            serviceStartDate = TimeValue 1704067200000,
            serviceEndDate = TimeValue 1706659200000, isProrated = Some False \<rparr>"
  "itemWithId (createSampleInvoice exampleDate) ''ITEM-002'' =
     Some \<lparr> invoiceItem_id = ''ITEM-002'', description = ''Static IP Address'',
            unitPrice = Fin 15, quantity = Fin 1,
            serviceStartDate = TimeValue 1704067200000,
            serviceEndDate = TimeValue 1706659200000, isProrated = Some False \<rparr>"
  "itemWithId (createSampleInvoice exampleDate) ''ITEM-404'' = None"
  "taxRate (createSampleInvoice exampleDate) = Fin 13"
  by (simp_all add: itemWithId_def createSampleInvoice_def exampleDate_def Let_def)

lemma sample_amounts:
  "jmul (Fin 15) (Fin 1) = Fin 15"
  "jmul (Fin (5628795846771343 / 2 ^ 46)) (Fin 1) = Fin (5628795846771343 / 2 ^ 46)"
  using toDouble_isDouble [OF example_doubles(1)] toDouble_isDouble [OF example_doubles(2)]
  by simp_all

theorem serviceCalculateCredit_skips_unmatched_witness:
  "map originalAmount
     (calculations (serviceCalculateCredit (TimeValue 1706745600000)
        (createSampleInvoice exampleDate) exampleRequest)) =
     [Fin 15, Fin (5628795846771343 / 2 ^ 46)] \<and>
   length (calculations (serviceCalculateCredit (TimeValue 1706745600000)
        (createSampleInvoice exampleDate) exampleRequest)) = 2 \<and>
   filter (\<lambda>itemId. itemId \<in> invoiceItem_id ` set (items (createSampleInvoice exampleDate)))
      (itemsToCredit exampleRequest) = [''ITEM-002'', ''ITEM-001'']"
proof -
  let ?inv = "createSampleInvoice exampleDate"
  let ?res = "serviceCalculateCredit (TimeValue 1706745600000) ?inv exampleRequest"
  let ?found = "List.map_filter (itemWithId ?inv) (itemsToCredit exampleRequest)"
  let ?named = "filter (\<lambda>itemId. itemId \<in> invoiceItem_id ` set (items ?inv))
      (itemsToCredit exampleRequest)"
  have found: "?found =
      [the (itemWithId ?inv ''ITEM-002''), the (itemWithId ?inv ''ITEM-001'')]"
    by (simp add: exampleRequest_def sampleInvoice_items)
  note c = serviceCalculateCredit_skips_unmatched [of "TimeValue 1706745600000" ?inv exampleRequest]
  from c have calcs: "calculations ?res =
      map (\<lambda>item. calculateItemCredit item exampleRequest (taxRate ?inv)) ?found"
    by blast
  from c have named: "map invoiceItem_id ?found = ?named" by blast
  from c have len: "length (calculations ?res) = length ?named" by blast
  have a: "map originalAmount (calculations ?res) = [Fin 15, Fin (5628795846771343 / 2 ^ 46)]"
    unfolding calcs found
    using sample_amounts by (simp add: sampleInvoice_items calculateItemCredit_originalAmount)
  have b: "?named = [''ITEM-002'', ''ITEM-001'']"
    unfolding named [symmetric] found by (simp add: sampleInvoice_items)
  have "length (calculations ?res) = 2" unfolding len b by simp
  with a b show ?thesis by simp
qed

theorem calculateItemCredit_modes_witness:
  "isPartialCredit exampleRequest \<and>
   creditStartDate exampleRequest = Some (TimeValue 1704067200000) \<and>
   creditEndDate exampleRequest = Some (TimeValue 1704844800000) \<and>
   itemCreditAmount (calculateItemCredit
      (the (itemWithId (createSampleInvoice exampleDate) ''ITEM-002'')) exampleRequest (Fin 13)) =
     Fin (5447902775044955 / 2 ^ 50) \<and>
   \<not> isPartialCredit (exampleRequest\<lparr>isPartialCredit := False\<rparr>) \<and>
   itemCreditAmount (calculateItemCredit
      (the (itemWithId (createSampleInvoice exampleDate) ''ITEM-002''))
      (exampleRequest\<lparr>isPartialCredit := False\<rparr>) (Fin 13)) = Fin 15 \<and>
   creditPercentage (calculateItemCredit
      (the (itemWithId (createSampleInvoice exampleDate) ''ITEM-002''))
      (exampleRequest\<lparr>isPartialCredit := False\<rparr>) (Fin 13)) = Fin 1"
proof -
  let ?item = "the (itemWithId (createSampleInvoice exampleDate) ''ITEM-002'')"
  have req: "isPartialCredit exampleRequest"
    "creditStartDate exampleRequest = Some (TimeValue 1704067200000)"
    "creditEndDate exampleRequest = Some (TimeValue 1704844800000)"
    "\<not> isPartialCredit (exampleRequest\<lparr>isPartialCredit := False\<rparr>)"
    by (simp_all add: exampleRequest_def)
  have item: "unitPrice ?item = Fin 15" "quantity ?item = Fin 1"
    "serviceStartDate ?item = TimeValue 1704067200000"
    "serviceEndDate ?item = TimeValue 1706659200000"
    by (simp_all add: sampleInvoice_items)
  have days: "calculateDaysBetween (TimeValue 1704067200000) (TimeValue 1704844800000) = Fin 10"
    "calculateDaysBetween (TimeValue 1704067200000) (TimeValue 1706659200000) = Fin 31"
    by (simp_all add: calculateDaysBetween_exact)
  have product: "jmul (Fin 15) (jdiv (Fin 10) (Fin 31)) = Fin (5447902775044955 / 2 ^ 50)"
    by (simp add: toDouble_normal [where k = "- 2"] toDouble_normal [where k = 2]
        roundHalfEven_def Let_def)
  have partial: "itemCreditAmount (calculateItemCredit ?item exampleRequest (Fin 13)) =
      Fin (5447902775044955 / 2 ^ 50)"
    using calculateItemCredit_modes
      [of exampleRequest "TimeValue 1704067200000" "TimeValue 1704844800000" ?item "Fin 13"]
      req(1-3)
    by (simp only: item days sample_amounts product simp_thms)
  have full: "itemCreditAmount (calculateItemCredit ?item
        (exampleRequest\<lparr>isPartialCredit := False\<rparr>) (Fin 13)) = Fin 15 \<and>
      creditPercentage (calculateItemCredit ?item
        (exampleRequest\<lparr>isPartialCredit := False\<rparr>) (Fin 13)) = Fin 1"
    using calculateItemCredit_modes
      [of "exampleRequest\<lparr>isPartialCredit := False\<rparr>" _ _ ?item "Fin 13"] req(4)
    by (simp only: item sample_amounts simp_thms)
  from req partial full show ?thesis by simp
qed

theorem calculateItemCredit_partial_without_dates_witness:
  "isPartialCredit (exampleRequest\<lparr>creditEndDate := None\<rparr>) \<and>
   creditEndDate (exampleRequest\<lparr>creditEndDate := None\<rparr>) = None \<and>
   creditPercentage (calculateItemCredit
      (the (itemWithId (createSampleInvoice exampleDate) ''ITEM-002''))
      (exampleRequest\<lparr>creditEndDate := None\<rparr>) (Fin 13)) = Fin 1 \<and>
   itemCreditAmount (calculateItemCredit
      (the (itemWithId (createSampleInvoice exampleDate) ''ITEM-002''))
      (exampleRequest\<lparr>creditEndDate := None\<rparr>) (Fin 13)) = Fin 15 \<and>
   daysCredited (calculateItemCredit
      (the (itemWithId (createSampleInvoice exampleDate) ''ITEM-002''))
      (exampleRequest\<lparr>creditEndDate := None\<rparr>) (Fin 13)) = Fin 31"
proof -
  let ?item = "the (itemWithId (createSampleInvoice exampleDate) ''ITEM-002'')"
  let ?req = "exampleRequest\<lparr>creditEndDate := None\<rparr>"
  have req: "isPartialCredit ?req" "creditEndDate ?req = None"
    by (simp_all add: exampleRequest_def)
  have item: "unitPrice ?item = Fin 15" "quantity ?item = Fin 1"
    "serviceStartDate ?item = TimeValue 1704067200000"
    "serviceEndDate ?item = TimeValue 1706659200000"
    by (simp_all add: sampleInvoice_items)
  have orig: "originalAmount (calculateItemCredit ?item ?req (Fin 13)) = Fin 15"
    by (simp only: calculateItemCredit_originalAmount item sample_amounts)
  have days: "daysInBillingPeriod (calculateItemCredit ?item ?req (Fin 13)) = Fin 31"
    by (simp add: calculateItemCredit_full req Let_def item calculateDaysBetween_exact)
  from calculateItemCredit_partial_without_dates [of ?req ?item "Fin 13"] req orig days
  show ?thesis by simp
qed

end
